theory Spec2Isabelle
  imports Main "HOL-Library.AList" "HOL-Library.Sublist"
begin

section \<open>Values, model objects and rows\<close>

text \<open>
  A field value of a row. A field that is \<^verbatim>\<open>undefined\<close> in the source is a field the
  object does not have; \<open>VNull\<close> is the source's \<^verbatim>\<open>null\<close>.
\<close>

datatype val = VNum int | VStr string | VNull

text \<open>
  \<^verbatim>\<open>ModelObject\<close>: a plain field-value object. Fields keep their insertion order, as the
  keys of a JavaScript object do; \<open>map_of\<close> reads a field and \<open>AList.update\<close> assigns one.
\<close>

type_synonym ModelObject = "(string \<times> val) list"

type_synonym addr = nat

type_synonym trx_id = nat

text \<open>
  \<^verbatim>\<open>LucidRow\<close>: a live row instance, with its attributes and the mutable slot \<^verbatim>\<open>$trx\<close>
  holding the transaction the row is currently bound to.
\<close>

record LucidRow =
  attributes :: ModelObject
  row_trx :: "trx_id option"

text \<open>
  \<^verbatim>\<open>QueryClientContract\<close>: either a plain client or a transaction client
  (a transaction client is itself a query client).
\<close>

datatype handle = Client | Trx trx_id

datatype op_kind = QueryAction | PersistAction

datatype error =
    MissingKeyError op_kind string
  | ConstraintViolationError
  | TransactionError

section \<open>The relation descriptor\<close>

text \<open>
  The key names of a \<^verbatim>\<open>HasMany\<close> relation. The class itself lives in \<^verbatim>\<open>./index\<close>; the two
  source files read \<^verbatim>\<open>localKey\<close>, \<^verbatim>\<open>foreignKey\<close> and \<^verbatim>\<open>$foreignCastAsKey\<close> from it.
\<close>

record RelationKeys =
  localKey :: string
  foreignKey :: string
  foreignCastAsKey :: string

text \<open>
  Modelled from the spec: \<^verbatim>\<open>getValue\<close> of \<^verbatim>\<open>utils\<close> (the spec's \<open>resolve\<close>) is not among the
  sources. It reads the field named by the key from the row and fails with a missing-key
  error when the field is undefined or null.
\<close>

definition getValue :: "LucidRow \<Rightarrow> string \<Rightarrow> RelationKeys \<Rightarrow> op_kind \<Rightarrow> error + val" where
  "getValue model key rel action =
     (case map_of (attributes model) key of
        None \<Rightarrow> Inl (MissingKeyError action key)
      | Some VNull \<Rightarrow> Inl (MissingKeyError action key)
      | Some v \<Rightarrow> Inr v)"

text \<open>
  Modelled from the spec: \<^verbatim>\<open>unique\<close> of \<^verbatim>\<open>utils\<close> (the spec's \<open>dedupe\<close>) is not among the
  sources. It returns the distinct values of a sequence; here each value stays at the
  place of its first occurrence.
\<close>

definition unique :: "'a list \<Rightarrow> 'a list" where
  "unique xs = rev (remdups (rev xs))"

section \<open>HasManyQueryBuilder\<close>

text \<open>The calls made on the knex builder: \<^verbatim>\<open>where(column, value)\<close> and \<^verbatim>\<open>whereIn(column, values)\<close>.\<close>

datatype where_clause = Where string val | WhereIn string "val list"

text \<open>The bound parent, \<^verbatim>\<open>ModelContract | ModelContract[]\<close>: one row reference or an array of them.\<close>

datatype parent_binding = One addr | Many "addr list"

record HasManyQueryBuilder =
  knexBuilder :: "where_clause list"
  client :: handle
  parent :: parent_binding
  relation :: RelationKeys
  isEager :: bool
  appliedConstraints :: bool
  isRelatedPreloadQuery :: bool

text \<open>
  Modelled from the spec: \<^verbatim>\<open>$queryAction\<close> is inherited from the base builder, which is not
  among the sources; for a query builder the operation context is a query.
\<close>

definition queryAction :: "HasManyQueryBuilder \<Rightarrow> op_kind" where
  "queryAction b = QueryAction"

text \<open>
  \<^verbatim>\<open>this.parent.map((model) => getValue(model, ...))\<close>: the first row whose key does not
  resolve raises, and the whole map is abandoned.
\<close>

fun getValues :: "(addr \<Rightarrow> LucidRow) \<Rightarrow> addr list \<Rightarrow> string \<Rightarrow> RelationKeys \<Rightarrow> op_kind \<Rightarrow> error + val list" where
  "getValues heap [] key rel action = Inr []"
| "getValues heap (a # as) key rel action =
     (case getValue (heap a) key rel action of
        Inl e \<Rightarrow> Inl e
      | Inr v \<Rightarrow> (case getValues heap as key rel action of
                   Inl e \<Rightarrow> Inl e
                 | Inr vs \<Rightarrow> Inr (v # vs)))"

text \<open>
  \<^verbatim>\<open>applyConstraints\<close>. The rows are read through the heap at the time of the call. The flag
  is set before the keys are resolved, so it stays set when resolving raises.
\<close>

definition applyConstraints ::
  "(addr \<Rightarrow> LucidRow) \<Rightarrow> HasManyQueryBuilder \<Rightarrow> (error + unit) \<times> HasManyQueryBuilder" where
  "applyConstraints heap b =
     (if appliedConstraints b then (Inr (), b)
      else
        let action = queryAction b;
            b1 = b\<lparr>appliedConstraints := True\<rparr>
        in (case parent b1 of
              Many ps \<Rightarrow>
                (case getValues heap ps (localKey (relation b1)) (relation b1) action of
                   Inl e \<Rightarrow> (Inl e, b1)
                 | Inr vs \<Rightarrow>
                     (Inr (), b1\<lparr>knexBuilder :=
                        knexBuilder b1 @ [WhereIn (foreignCastAsKey (relation b1)) (unique vs)]\<rparr>))
            | One p \<Rightarrow>
                (case getValue (heap p) (localKey (relation b1)) (relation b1) action of
                   Inl e \<Rightarrow> (Inl e, b1)
                 | Inr v \<Rightarrow>
                     (Inr (), b1\<lparr>knexBuilder :=
                        knexBuilder b1 @ [Where (foreignCastAsKey (relation b1)) v]\<rparr>))))"

definition getRelationKeys :: "HasManyQueryBuilder \<Rightarrow> string list" where
  "getRelationKeys b = [foreignCastAsKey (relation b)]"

text \<open>The rows a builder is bound to.\<close>

fun bound_rows :: "parent_binding \<Rightarrow> addr list" where
  "bound_rows (One p) = [p]"
| "bound_rows (Many ps) = ps"

text \<open>
  Calling \<^verbatim>\<open>applyConstraints\<close> once per element of a list, each call seeing the rows as
  they are at that time.
\<close>

fun applyConstraints_calls :: "(addr \<Rightarrow> LucidRow) list \<Rightarrow> HasManyQueryBuilder \<Rightarrow> HasManyQueryBuilder" where
  "applyConstraints_calls [] b = b"
| "applyConstraints_calls (heap # heaps) b = applyConstraints_calls heaps (snd (applyConstraints heap b))"

text \<open>
  The constructor: the knex builder, client, parent, relation and eager flag are stored; the
  base builder starts with no constraints applied and is not a preload query.
\<close>

definition new_HasManyQueryBuilder ::
  "where_clause list \<Rightarrow> handle \<Rightarrow> parent_binding \<Rightarrow> RelationKeys \<Rightarrow> bool \<Rightarrow> HasManyQueryBuilder" where
  "new_HasManyQueryBuilder builder cl par rel eager =
     \<lparr>knexBuilder = builder, client = cl, parent = par, relation = rel, isEager = eager,
      appliedConstraints = False, isRelatedPreloadQuery = False\<rparr>"

section \<open>The static factories of HasManyQueryClient\<close>

text \<open>
  \<^verbatim>\<open>HasManySubQueryBuilder\<close> is declared in \<^verbatim>\<open>./SubQueryBuilder\<close>; its constructor takes the
  knex builder, the client and the relation, and no parent.
\<close>

record HasManySubQueryBuilder =
  sub_knexBuilder :: "where_clause list"
  sub_client :: handle
  sub_relation :: RelationKeys

text \<open>
  The hook \<^verbatim>\<open>relation.onQueryHook\<close> is one JavaScript function that is handed either kind of
  builder and changes it in place. It is modelled by what it does to each kind.
\<close>

record query_hook =
  on_query :: "HasManyQueryBuilder \<Rightarrow> HasManyQueryBuilder"
  on_subquery :: "HasManySubQueryBuilder \<Rightarrow> HasManySubQueryBuilder"

text \<open>
  The relation: its keys and the optional hook. A builder keeps the relation's keys only,
  since the hook takes builders as its argument.
\<close>

record HasMany = RelationKeys +
  onQueryHook :: "query_hook option"

definition keys_of :: "HasMany \<Rightarrow> RelationKeys" where
  "keys_of rel = \<lparr>localKey = localKey rel, foreignKey = foreignKey rel,
                  foreignCastAsKey = foreignCastAsKey rel\<rparr>"

text \<open>\<^verbatim>\<open>client.knexQuery()\<close>: a new knex builder, with no clause yet.\<close>

definition knexQuery :: "handle \<Rightarrow> where_clause list" where
  "knexQuery cl = []"

text \<open>
  \<^verbatim>\<open>typeof relation.onQueryHook === 'function' && relation.onQueryHook(query)\<close>: the builder
  as the hook leaves it, together with the arguments of every call made to the hook.
\<close>

definition invoke_hook :: "('b \<Rightarrow> 'b) option \<Rightarrow> 'b \<Rightarrow> 'b \<times> 'b list" where
  "invoke_hook hook q = (case hook of None \<Rightarrow> (q, []) | Some f \<Rightarrow> (f q, [q]))"

definition query :: "handle \<Rightarrow> HasMany \<Rightarrow> addr \<Rightarrow> HasManyQueryBuilder \<times> HasManyQueryBuilder list" where
  "query cl rel row =
     (let q = new_HasManyQueryBuilder (knexQuery cl) cl (One row) (keys_of rel) False
      in invoke_hook (map_option on_query (onQueryHook rel)) q)"

definition eagerQuery ::
  "handle \<Rightarrow> HasMany \<Rightarrow> parent_binding \<Rightarrow> HasManyQueryBuilder \<times> HasManyQueryBuilder list" where
  "eagerQuery cl rel rows =
     (let q = new_HasManyQueryBuilder (knexQuery cl) cl rows (keys_of rel) False;
          q1 = q\<lparr>isRelatedPreloadQuery := True\<rparr>
      in invoke_hook (map_option on_query (onQueryHook rel)) q1)"

definition subQuery :: "handle \<Rightarrow> HasMany \<Rightarrow> HasManySubQueryBuilder \<times> HasManySubQueryBuilder list" where
  "subQuery cl rel =
     (let q = \<lparr>sub_knexBuilder = knexQuery cl, sub_client = cl, sub_relation = keys_of rel\<rparr>
      in invoke_hook (map_option on_subquery (onQueryHook rel)) q)"

record HasManyQueryClient =
  this_relation :: HasMany
  this_parent :: addr
  this_client :: handle

text \<open>The instance method \<^verbatim>\<open>query()\<close>.\<close>

definition this_query :: "HasManyQueryClient \<Rightarrow> HasManyQueryBuilder \<times> HasManyQueryBuilder list" where
  "this_query this = query (this_client this) (this_relation this) (this_parent this)"

section \<open>The world the write operations run in\<close>

text \<open>The second argument of \<^verbatim>\<open>hydrateForPersistance\<close>: a row or a plain object.\<close>

datatype target = RowT addr | ObjT addr

text \<open>
  \<^verbatim>\<open>ModelAssignOptions\<close> is declared outside the sources. Every operation hands
  \<^verbatim>\<open>{ client: trx, ...options }\<close> to the related model, and in that object literal a
  \<^verbatim>\<open>client\<close> entry of the caller's options replaces \<^verbatim>\<open>trx\<close>. The model therefore keeps the
  \<^verbatim>\<open>client\<close> entry apart from the other entries, which are handed on unchanged.
\<close>

record ModelAssignOptions =
  client_entry :: "handle option"
  other_entries :: "(string \<times> val) list"

text \<open>The calls made on \<^verbatim>\<open>relation.relatedModel()\<close>, with the objects passed by reference.\<close>

datatype model_call =
    Create addr
  | CreateMany "addr list"
  | FirstOrCreate addr "addr option"
  | UpdateOrCreate addr addr
  | FetchOrCreateMany "string list" "addr list"
  | UpdateOrCreateMany "string list" "addr list"

text \<open>
  The trace of a run: every call to the transaction layer, every assignment to a row's
  \<^verbatim>\<open>$trx\<close>, every hydration, every \<^verbatim>\<open>row.save()\<close> and every call to the related model
  (with the options object it is given), in the order they are made.
\<close>

datatype event =
    Begin trx_id
  | Commit trx_id
  | Rollback trx_id
  | SetTrx addr trx_id
  | Hydrate target
  | RowSave addr
  | RelatedModel model_call ModelAssignOptions

text \<open>
  The state: the rows and plain objects in memory, the rows the storage has committed,
  the uncommitted writes of every open transaction, the storage's next generated key, the
  rows the storage refuses (a constraint violation), and the trace.
\<close>

record world =
  rows :: "addr \<Rightarrow> LucidRow"
  objects :: "addr \<Rightarrow> ModelObject"
  next_row :: addr
  next_object :: addr
  committed :: "ModelObject list"
  pending :: "trx_id \<Rightarrow> ModelObject list option"
  next_trx :: trx_id
  next_key :: int
  rejects :: "ModelObject \<Rightarrow> bool"
  trace :: "event list"

text \<open>An asynchronous step: it changes the world and either returns or raises.\<close>

type_synonym 'a action = "world \<Rightarrow> (error + 'a) \<times> world"

definition succeed :: "'a \<Rightarrow> 'a action" where
  "succeed x w = (Inr x, w)"

definition andThen :: "'a action \<Rightarrow> ('a \<Rightarrow> 'b action) \<Rightarrow> 'b action" where
  "andThen m f w = (case m w of (Inl e, w') \<Rightarrow> (Inl e, w') | (Inr x, w') \<Rightarrow> f x w')"

definition emit :: "event \<Rightarrow> world \<Rightarrow> world" where
  "emit ev w = w\<lparr>trace := trace w @ [ev]\<rparr>"

subsection \<open>The transaction layer and the coordinator\<close>

text \<open>
  Modelled from the spec: the transaction layer (\<open>begin\<close>, \<open>commit\<close>, \<open>rollback\<close>) is an
  external collaborator. A new transaction starts with no writes; committing appends its
  writes to the committed rows; rolling back drops them.
\<close>

definition begin_trx :: "world \<Rightarrow> trx_id \<times> world" where
  "begin_trx w =
     (next_trx w,
      emit (Begin (next_trx w))
        (w\<lparr>pending := (pending w)(next_trx w \<mapsto> []), next_trx := Suc (next_trx w)\<rparr>))"

definition commit_trx :: "trx_id \<Rightarrow> world \<Rightarrow> world" where
  "commit_trx t w =
     emit (Commit t)
       (w\<lparr>committed := committed w @ (case pending w t of None \<Rightarrow> [] | Some ws \<Rightarrow> ws),
          pending := (pending w)(t := None)\<rparr>)"

definition rollback_trx :: "trx_id \<Rightarrow> world \<Rightarrow> world" where
  "rollback_trx t w = emit (Rollback t) (w\<lparr>pending := (pending w)(t := None)\<rparr>)"

text \<open>
  Modelled from the spec: \<^verbatim>\<open>managedTransaction\<close> of \<^verbatim>\<open>utils\<close> (the spec's transaction
  coordinator) is not among the sources. Given an existing transaction it runs the work
  with it and neither commits nor rolls back. Given a plain client it opens a transaction,
  runs the work, commits on normal return, and rolls back and re-raises on a failure.
\<close>

definition managedTransaction :: "handle \<Rightarrow> (trx_id \<Rightarrow> 'a action) \<Rightarrow> 'a action" where
  "managedTransaction h work w =
     (case h of
        Trx t \<Rightarrow> work t w
      | Client \<Rightarrow>
          (let (t, w1) = begin_trx w
           in (case work t w1 of
                 (Inr r, w2) \<Rightarrow> (Inr r, commit_trx t w2)
               | (Inl e, w2) \<Rightarrow> (Inl e, rollback_trx t w2))))"

subsection \<open>Rows\<close>

text \<open>\<^verbatim>\<open>row.$trx = trx\<close>.\<close>

definition set_trx :: "addr \<Rightarrow> trx_id \<Rightarrow> unit action" where
  "set_trx a t w =
     (Inr (), emit (SetTrx a t) (w\<lparr>rows := (rows w)(a := (rows w a)\<lparr>row_trx := Some t\<rparr>)\<rparr>))"

text \<open>
  Modelled from the spec: writing one row through a handle. The storage refuses the rows
  it rejects; a write through a transaction that is no longer open fails; a write outside
  any transaction is committed at once.
\<close>

definition write_row :: "trx_id option \<Rightarrow> ModelObject \<Rightarrow> unit action" where
  "write_row h snapshot w =
     (if rejects w snapshot then (Inl ConstraintViolationError, w)
      else (case h of
              None \<Rightarrow> (Inr (), w\<lparr>committed := committed w @ [snapshot]\<rparr>)
            | Some t \<Rightarrow>
                (case pending w t of
                   None \<Rightarrow> (Inl TransactionError, w)
                 | Some ws \<Rightarrow> (Inr (), w\<lparr>pending := (pending w)(t \<mapsto> ws @ [snapshot])\<rparr>))))"

definition primaryKey :: string where
  "primaryKey = ''id''"

text \<open>
  Modelled from the spec: \<^verbatim>\<open>row.save()\<close> of the row contract, which persists the row's
  current fields through the row's own \<^verbatim>\<open>$trx\<close> and assigns generated keys. A row without
  a primary key gets the storage's next key; the row in memory then carries it.
\<close>

definition row_save :: "addr \<Rightarrow> unit action" where
  "row_save a w =
     (let w1 = emit (RowSave a) w;
          r = rows w1 a;
          generated = (map_of (attributes r) primaryKey = None);
          snapshot = (if generated then attributes r @ [(primaryKey, VNum (next_key w1))]
                      else attributes r)
      in (case write_row (row_trx r) snapshot w1 of
            (Inl e, w2) \<Rightarrow> (Inl e, w2)
          | (Inr _, w2) \<Rightarrow>
              (Inr (),
               w2\<lparr>rows := (rows w2)(a := r\<lparr>attributes := snapshot\<rparr>),
                  next_key := (if generated then next_key w2 + 1 else next_key w2)\<rparr>)))"

text \<open>
  Modelled from the spec: \<^verbatim>\<open>relation.hydrateForPersistance(parent, related)\<close> of \<^verbatim>\<open>./index\<close>
  sets the foreign-key field of the child or payload, in place, to the parent's resolved
  local-key value; an unresolved local key raises.
\<close>

definition hydrateForPersistance :: "RelationKeys \<Rightarrow> addr \<Rightarrow> target \<Rightarrow> unit action" where
  "hydrateForPersistance rel p related w =
     (let w1 = emit (Hydrate related) w
      in (case getValue (rows w1 p) (localKey rel) rel PersistAction of
            Inl e \<Rightarrow> (Inl e, w1)
          | Inr v \<Rightarrow>
              (Inr (),
               (case related of
                  RowT a \<Rightarrow>
                    w1\<lparr>rows := (rows w1)
                      (a := (rows w1 a)\<lparr>attributes :=
                         AList.update (foreignKey rel) v (attributes (rows w1 a))\<rparr>)\<rparr>
                | ObjT a \<Rightarrow>
                    w1\<lparr>objects := (objects w1)
                      (a := AList.update (foreignKey rel) v (objects w1 a))\<rparr>))))"

text \<open>\<^verbatim>\<open>Object.assign({}, values)\<close>: a new object with the same fields.\<close>

definition copy_object :: "addr \<Rightarrow> addr action" where
  "copy_object a w =
     (Inr (next_object w),
      w\<lparr>objects := (objects w)(next_object w := objects w a),
        next_object := Suc (next_object w)\<rparr>)"

subsection \<open>The related model\<close>

text \<open>
  Modelled from the spec: the related model's factory calls are external collaborators.
  Each builds row instances bound to the client it is given and persists them with
  \<^verbatim>\<open>row.save()\<close>, in the order of its input; lookups see the committed rows and, inside a
  transaction, the writes of that transaction.
\<close>

definition new_row :: "ModelObject \<Rightarrow> trx_id option \<Rightarrow> addr action" where
  "new_row attrs bound w =
     (Inr (next_row w),
      w\<lparr>rows := (rows w)(next_row w := \<lparr>attributes = attrs, row_trx = bound\<rparr>),
        next_row := Suc (next_row w)\<rparr>)"

definition insert_new :: "ModelObject \<Rightarrow> trx_id option \<Rightarrow> addr action" where
  "insert_new attrs bound =
     andThen (new_row attrs bound) (\<lambda>a. andThen (row_save a) (\<lambda>_. succeed a))"

definition visible :: "trx_id \<Rightarrow> world \<Rightarrow> ModelObject list" where
  "visible t w = committed w @ (case pending w t of None \<Rightarrow> [] | Some ws \<Rightarrow> ws)"

text \<open>What a lookup sees: inside a transaction its writes too, outside only the committed rows.\<close>

definition seen :: "trx_id option \<Rightarrow> world \<Rightarrow> ModelObject list" where
  "seen bound w = (case bound of None \<Rightarrow> committed w | Some t \<Rightarrow> visible t w)"

definition matches :: "ModelObject \<Rightarrow> ModelObject \<Rightarrow> bool" where
  "matches search r = list_all (\<lambda>(k, v). map_of r k = Some v) search"

definition merge :: "ModelObject \<Rightarrow> ModelObject \<Rightarrow> ModelObject" where
  "merge a b = fold (\<lambda>(k, v). AList.update k v) b a"

definition restrict_fields :: "string list \<Rightarrow> ModelObject \<Rightarrow> ModelObject" where
  "restrict_fields fs obj = filter (\<lambda>(k, v). k \<in> set fs) obj"

definition first_or_create :: "ModelObject \<Rightarrow> ModelObject \<Rightarrow> trx_id option \<Rightarrow> addr action" where
  "first_or_create search attrs bound w =
     (case find (matches search) (seen bound w) of
        Some r \<Rightarrow> new_row r bound w
      | None \<Rightarrow> insert_new attrs bound w)"

definition update_or_create :: "ModelObject \<Rightarrow> ModelObject \<Rightarrow> trx_id option \<Rightarrow> addr action" where
  "update_or_create search updates bound w =
     (case find (matches search) (seen bound w) of
        Some r \<Rightarrow> insert_new (merge r updates) bound w
      | None \<Rightarrow> insert_new (merge search updates) bound w)"

text \<open>Running one step for every element of a list, in order, stopping at the first failure.\<close>

fun each :: "('a \<Rightarrow> 'b action) \<Rightarrow> 'a list \<Rightarrow> 'b list action" where
  "each f [] = succeed []"
| "each f (x # xs) = andThen (f x) (\<lambda>y. andThen (each f xs) (\<lambda>ys. succeed (y # ys)))"

text \<open>What a write operation returns: nothing, one row, or an array of rows.\<close>

datatype ret = RVoid | RRow addr | RRows "addr list"

text \<open>
  \<^verbatim>\<open>{ client: trx, ...options }\<close>: the caller's options with \<^verbatim>\<open>trx\<close> as the client, unless
  the options have a \<^verbatim>\<open>client\<close> entry of their own, which then stands.
\<close>

definition spread :: "trx_id \<Rightarrow> ModelAssignOptions option \<Rightarrow> ModelAssignOptions" where
  "spread trx options =
     (case options of
        None \<Rightarrow> \<lparr>client_entry = Some (Trx trx), other_entries = []\<rparr>
      | Some given \<Rightarrow>
          (case client_entry given of
             None \<Rightarrow> given\<lparr>client_entry := Some (Trx trx)\<rparr>
           | Some h \<Rightarrow> given))"

text \<open>
  Modelled from the spec: the related model works through the client of the options it is
  given. Its rows are bound to that client when it is a transaction, and to no transaction
  when it is a plain client (or when there is none).
\<close>

definition client_binding :: "ModelAssignOptions \<Rightarrow> trx_id option" where
  "client_binding given =
     (case client_entry given of Some (Trx t) \<Rightarrow> Some t | Some Client \<Rightarrow> None | None \<Rightarrow> None)"

definition called :: "model_call \<Rightarrow> ModelAssignOptions \<Rightarrow> unit action" where
  "called c given w = (Inr (), emit (RelatedModel c given) w)"

text \<open>Reading a plain object that was passed by reference.\<close>

definition read_object :: "addr \<Rightarrow> ModelObject action" where
  "read_object a w = (Inr (objects w a), w)"

definition relatedModel_create :: "addr \<Rightarrow> ModelAssignOptions \<Rightarrow> ret action" where
  "relatedModel_create vals given =
     andThen (called (Create vals) given) (\<lambda>_.
     andThen (read_object vals) (\<lambda>attrs.
     andThen (insert_new attrs (client_binding given)) (\<lambda>a.
     succeed (RRow a))))"

definition relatedModel_createMany :: "addr list \<Rightarrow> ModelAssignOptions \<Rightarrow> ret action" where
  "relatedModel_createMany vals given =
     andThen (called (CreateMany vals) given) (\<lambda>_.
     andThen (each read_object vals) (\<lambda>attrs.
     andThen (each (\<lambda>obj. insert_new obj (client_binding given)) attrs) (\<lambda>as.
     succeed (RRows as))))"

definition relatedModel_firstOrCreate ::
  "addr \<Rightarrow> addr option \<Rightarrow> ModelAssignOptions \<Rightarrow> ret action" where
  "relatedModel_firstOrCreate search savePayload given =
     andThen (called (FirstOrCreate search savePayload) given) (\<lambda>_.
     andThen (read_object search) (\<lambda>wanted.
     andThen (case savePayload of None \<Rightarrow> succeed [] | Some p \<Rightarrow> read_object p) (\<lambda>extra.
     andThen (first_or_create wanted (merge wanted extra) (client_binding given)) (\<lambda>a.
     succeed (RRow a)))))"

definition relatedModel_updateOrCreate ::
  "addr \<Rightarrow> addr \<Rightarrow> ModelAssignOptions \<Rightarrow> ret action" where
  "relatedModel_updateOrCreate search updatePayload given =
     andThen (called (UpdateOrCreate search updatePayload) given) (\<lambda>_.
     andThen (read_object search) (\<lambda>wanted.
     andThen (read_object updatePayload) (\<lambda>updates.
     andThen (update_or_create wanted updates (client_binding given)) (\<lambda>a.
     succeed (RRow a)))))"

definition relatedModel_fetchOrCreateMany ::
  "string list \<Rightarrow> addr list \<Rightarrow> ModelAssignOptions \<Rightarrow> ret action" where
  "relatedModel_fetchOrCreateMany predicateFields payload given =
     andThen (called (FetchOrCreateMany predicateFields payload) given) (\<lambda>_.
     andThen (each read_object payload) (\<lambda>attrs.
     andThen (each (\<lambda>obj. first_or_create (restrict_fields predicateFields obj) obj
                      (client_binding given)) attrs) (\<lambda>as.
     succeed (RRows as))))"

definition relatedModel_updateOrCreateMany ::
  "string list \<Rightarrow> addr list \<Rightarrow> ModelAssignOptions \<Rightarrow> ret action" where
  "relatedModel_updateOrCreateMany predicateFields payload given =
     andThen (called (UpdateOrCreateMany predicateFields payload) given) (\<lambda>_.
     andThen (each read_object payload) (\<lambda>attrs.
     andThen (each (\<lambda>obj. update_or_create (restrict_fields predicateFields obj) obj
                      (client_binding given)) attrs) (\<lambda>as.
     succeed (RRows as))))"

section \<open>The write operations of HasManyQueryClient\<close>

text \<open>\<^verbatim>\<open>this.parent.$trx || this.client\<close>, the first argument of every \<^verbatim>\<open>managedTransaction\<close>.\<close>

definition trx_or_client :: "HasManyQueryClient \<Rightarrow> world \<Rightarrow> handle" where
  "trx_or_client this w =
     (case row_trx (rows w (this_parent this)) of Some t \<Rightarrow> Trx t | None \<Rightarrow> this_client this)"

text \<open>
  Every operation is \<^verbatim>\<open>managedTransaction(this.parent.$trx || this.client, work)\<close>; the
  arrow function \<open>work\<close> of each operation is defined first, under the operation's name with
  the suffix \<open>_work\<close>.
\<close>

definition save_work :: "HasManyQueryClient \<Rightarrow> addr \<Rightarrow> trx_id \<Rightarrow> ret action" where
  "save_work this related trx =
     andThen (set_trx (this_parent this) trx) (\<lambda>_.
     andThen (row_save (this_parent this)) (\<lambda>_.
     andThen (hydrateForPersistance (keys_of (this_relation this)) (this_parent this) (RowT related)) (\<lambda>_.
     andThen (set_trx related trx) (\<lambda>_.
     andThen (row_save related) (\<lambda>_.
     succeed RVoid)))))"

definition save :: "HasManyQueryClient \<Rightarrow> addr \<Rightarrow> ret action" where
  "save this related w =
     andThen (managedTransaction (trx_or_client this w) (save_work this related))
       (\<lambda>_. succeed RVoid) w"

fun saveMany_loop :: "HasManyQueryClient \<Rightarrow> trx_id \<Rightarrow> addr list \<Rightarrow> unit action" where
  "saveMany_loop this trx [] = succeed ()"
| "saveMany_loop this trx (row # related) =
     andThen (hydrateForPersistance (keys_of (this_relation this)) (this_parent this) (RowT row)) (\<lambda>_.
     andThen (set_trx row trx) (\<lambda>_.
     andThen (row_save row) (\<lambda>_.
     saveMany_loop this trx related)))"

definition saveMany_work :: "HasManyQueryClient \<Rightarrow> addr list \<Rightarrow> trx_id \<Rightarrow> ret action" where
  "saveMany_work this related trx =
     andThen (set_trx (this_parent this) trx) (\<lambda>_.
     andThen (row_save (this_parent this)) (\<lambda>_.
     andThen (saveMany_loop this trx related) (\<lambda>_.
     succeed RVoid)))"

definition saveMany :: "HasManyQueryClient \<Rightarrow> addr list \<Rightarrow> ret action" where
  "saveMany this related w =
     andThen (managedTransaction (trx_or_client this w) (saveMany_work this related))
       (\<lambda>_. succeed RVoid) w"

definition create_work ::
  "HasManyQueryClient \<Rightarrow> addr \<Rightarrow> ModelAssignOptions option \<Rightarrow> trx_id \<Rightarrow> ret action" where
  "create_work this vals options trx =
     andThen (set_trx (this_parent this) trx) (\<lambda>_.
     andThen (row_save (this_parent this)) (\<lambda>_.
     andThen (copy_object vals) (\<lambda>valuesToPersist.
     andThen (hydrateForPersistance (keys_of (this_relation this)) (this_parent this)
                (ObjT valuesToPersist)) (\<lambda>_.
     relatedModel_create valuesToPersist (spread trx options)))))"

definition create :: "HasManyQueryClient \<Rightarrow> addr \<Rightarrow> ModelAssignOptions option \<Rightarrow> ret action" where
  "create this vals options w =
     managedTransaction (trx_or_client this w) (create_work this vals options) w"

text \<open>The arrow function mapped over \<^verbatim>\<open>values\<close> in \<^verbatim>\<open>createMany\<close>.\<close>

definition copy_hydrated :: "HasManyQueryClient \<Rightarrow> addr \<Rightarrow> addr action" where
  "copy_hydrated this v =
     andThen (copy_object v) (\<lambda>valueToPersist.
     andThen (hydrateForPersistance (keys_of (this_relation this)) (this_parent this)
                (ObjT valueToPersist)) (\<lambda>_.
     succeed valueToPersist))"

definition createMany_work ::
  "HasManyQueryClient \<Rightarrow> addr list \<Rightarrow> ModelAssignOptions option \<Rightarrow> trx_id \<Rightarrow> ret action" where
  "createMany_work this vals options trx =
     andThen (set_trx (this_parent this) trx) (\<lambda>_.
     andThen (row_save (this_parent this)) (\<lambda>_.
     andThen (each (copy_hydrated this) vals) (\<lambda>valuesToPersist.
     relatedModel_createMany valuesToPersist (spread trx options))))"

definition createMany ::
  "HasManyQueryClient \<Rightarrow> addr list \<Rightarrow> ModelAssignOptions option \<Rightarrow> ret action" where
  "createMany this vals options w =
     managedTransaction (trx_or_client this w) (createMany_work this vals options) w"

definition firstOrCreate_work ::
  "HasManyQueryClient \<Rightarrow> addr \<Rightarrow> addr option \<Rightarrow> ModelAssignOptions option \<Rightarrow> trx_id \<Rightarrow> ret action" where
  "firstOrCreate_work this search savePayload options trx =
     andThen (set_trx (this_parent this) trx) (\<lambda>_.
     andThen (row_save (this_parent this)) (\<lambda>_.
     andThen (copy_object search) (\<lambda>valuesToPersist.
     andThen (hydrateForPersistance (keys_of (this_relation this)) (this_parent this)
                (ObjT valuesToPersist)) (\<lambda>_.
     relatedModel_firstOrCreate valuesToPersist savePayload (spread trx options)))))"

definition firstOrCreate ::
  "HasManyQueryClient \<Rightarrow> addr \<Rightarrow> addr option \<Rightarrow> ModelAssignOptions option \<Rightarrow> ret action" where
  "firstOrCreate this search savePayload options w =
     managedTransaction (trx_or_client this w)
       (firstOrCreate_work this search savePayload options) w"

definition updateOrCreate_work ::
  "HasManyQueryClient \<Rightarrow> addr \<Rightarrow> addr \<Rightarrow> ModelAssignOptions option \<Rightarrow> trx_id \<Rightarrow> ret action" where
  "updateOrCreate_work this search updatePayload options trx =
     andThen (set_trx (this_parent this) trx) (\<lambda>_.
     andThen (row_save (this_parent this)) (\<lambda>_.
     andThen (copy_object search) (\<lambda>valuesToPersist.
     andThen (hydrateForPersistance (keys_of (this_relation this)) (this_parent this)
                (ObjT valuesToPersist)) (\<lambda>_.
     relatedModel_updateOrCreate valuesToPersist updatePayload (spread trx options)))))"

definition updateOrCreate ::
  "HasManyQueryClient \<Rightarrow> addr \<Rightarrow> addr \<Rightarrow> ModelAssignOptions option \<Rightarrow> ret action" where
  "updateOrCreate this search updatePayload options w =
     managedTransaction (trx_or_client this w)
       (updateOrCreate_work this search updatePayload options) w"

text \<open>
  The optional \<^verbatim>\<open>predicate\<close> argument of the two batch upserts: left out, one field name,
  or an array of field names.
\<close>

datatype predicate_arg = PUndefined | PField string | PFields "string list"

text \<open>
  \<^verbatim>\<open>Array.isArray(predicate) ? predicate : predicate ? [predicate] : []\<close>; the empty string
  is falsy.
\<close>

definition normalize_predicate :: "predicate_arg \<Rightarrow> string list" where
  "normalize_predicate predicate =
     (case predicate of
        PFields fs \<Rightarrow> fs
      | PField f \<Rightarrow> (if f \<noteq> [] then [f] else [])
      | PUndefined \<Rightarrow> [])"

text \<open>\<^verbatim>\<open>predicate.concat(this.relation.foreignKey)\<close>, after the normalisation.\<close>

definition predicate_fields :: "HasManyQueryClient \<Rightarrow> predicate_arg \<Rightarrow> string list" where
  "predicate_fields this predicate =
     normalize_predicate predicate @ [foreignKey (this_relation this)]"

definition hydrate_payload :: "HasManyQueryClient \<Rightarrow> addr \<Rightarrow> unit action" where
  "hydrate_payload this row =
     hydrateForPersistance (keys_of (this_relation this)) (this_parent this) (ObjT row)"

definition fetchOrCreateMany_work ::
  "HasManyQueryClient \<Rightarrow> addr list \<Rightarrow> predicate_arg \<Rightarrow> ModelAssignOptions option \<Rightarrow> trx_id \<Rightarrow> ret action" where
  "fetchOrCreateMany_work this payload predicate options trx =
     andThen (set_trx (this_parent this) trx) (\<lambda>_.
     andThen (row_save (this_parent this)) (\<lambda>_.
     andThen (each (hydrate_payload this) payload) (\<lambda>_.
     relatedModel_fetchOrCreateMany (predicate_fields this predicate) payload
       (spread trx options))))"

definition fetchOrCreateMany ::
  "HasManyQueryClient \<Rightarrow> addr list \<Rightarrow> predicate_arg \<Rightarrow> ModelAssignOptions option \<Rightarrow> ret action" where
  "fetchOrCreateMany this payload predicate options w =
     managedTransaction (trx_or_client this w)
       (fetchOrCreateMany_work this payload predicate options) w"

definition updateOrCreateMany_work ::
  "HasManyQueryClient \<Rightarrow> addr list \<Rightarrow> predicate_arg \<Rightarrow> ModelAssignOptions option \<Rightarrow> trx_id \<Rightarrow> ret action" where
  "updateOrCreateMany_work this payload predicate options trx =
     andThen (set_trx (this_parent this) trx) (\<lambda>_.
     andThen (row_save (this_parent this)) (\<lambda>_.
     andThen (each (hydrate_payload this) payload) (\<lambda>_.
     relatedModel_updateOrCreateMany (predicate_fields this predicate) payload
       (spread trx options))))"

definition updateOrCreateMany ::
  "HasManyQueryClient \<Rightarrow> addr list \<Rightarrow> predicate_arg \<Rightarrow> ModelAssignOptions option \<Rightarrow> ret action" where
  "updateOrCreateMany this payload predicate options w =
     managedTransaction (trx_or_client this w)
       (updateOrCreateMany_work this payload predicate options) w"

subsection \<open>Any write operation\<close>

datatype write_op =
    OpSave addr
  | OpSaveMany "addr list"
  | OpCreate addr "ModelAssignOptions option"
  | OpCreateMany "addr list" "ModelAssignOptions option"
  | OpFirstOrCreate addr "addr option" "ModelAssignOptions option"
  | OpUpdateOrCreate addr addr "ModelAssignOptions option"
  | OpFetchOrCreateMany "addr list" predicate_arg "ModelAssignOptions option"
  | OpUpdateOrCreateMany "addr list" predicate_arg "ModelAssignOptions option"

fun invoke :: "HasManyQueryClient \<Rightarrow> write_op \<Rightarrow> ret action" where
  "invoke this (OpSave related) = save this related"
| "invoke this (OpSaveMany related) = saveMany this related"
| "invoke this (OpCreate vals options) = create this vals options"
| "invoke this (OpCreateMany vals options) = createMany this vals options"
| "invoke this (OpFirstOrCreate search savePayload options) =
     firstOrCreate this search savePayload options"
| "invoke this (OpUpdateOrCreate search updatePayload options) =
     updateOrCreate this search updatePayload options"
| "invoke this (OpFetchOrCreateMany payload predicate options) =
     fetchOrCreateMany this payload predicate options"
| "invoke this (OpUpdateOrCreateMany payload predicate options) =
     updateOrCreateMany this payload predicate options"

fun work_of :: "HasManyQueryClient \<Rightarrow> write_op \<Rightarrow> trx_id \<Rightarrow> ret action" where
  "work_of this (OpSave related) = save_work this related"
| "work_of this (OpSaveMany related) = saveMany_work this related"
| "work_of this (OpCreate vals options) = create_work this vals options"
| "work_of this (OpCreateMany vals options) = createMany_work this vals options"
| "work_of this (OpFirstOrCreate search savePayload options) =
     firstOrCreate_work this search savePayload options"
| "work_of this (OpUpdateOrCreate search updatePayload options) =
     updateOrCreate_work this search updatePayload options"
| "work_of this (OpFetchOrCreateMany payload predicate options) =
     fetchOrCreateMany_work this payload predicate options"
| "work_of this (OpUpdateOrCreateMany payload predicate options) =
     updateOrCreateMany_work this payload predicate options"

section \<open>Notions used to state the properties\<close>

text \<open>
  The transaction the coordinator hands to the work of an operation: the parent's own
  transaction when it has one, a client that is itself a transaction, or else the
  transaction that is opened next on the plain client.
\<close>

definition resolved_trx :: "HasManyQueryClient \<Rightarrow> world \<Rightarrow> trx_id" where
  "resolved_trx this w = (case trx_or_client this w of Trx t \<Rightarrow> t | Client \<Rightarrow> next_trx w)"

text \<open>The calls to the transaction layer.\<close>

fun transaction_call :: "event \<Rightarrow> bool" where
  "transaction_call (Begin t) = True"
| "transaction_call (Commit t) = True"
| "transaction_call (Rollback t) = True"
| "transaction_call ev = False"

definition no_transaction_call :: "event \<Rightarrow> bool" where
  "no_transaction_call ev = (\<not> transaction_call ev)"

text \<open>
  What happened between two worlds: the events added to the trace, and the same without
  the calls to the transaction layer.
\<close>

definition events_since :: "world \<Rightarrow> world \<Rightarrow> event list" where
  "events_since w w' = drop (length (trace w)) (trace w')"

definition steps_since :: "world \<Rightarrow> world \<Rightarrow> event list" where
  "steps_since w w' = filter no_transaction_call (events_since w w')"

text \<open>The steps the loop of \<^verbatim>\<open>saveMany\<close> takes for its rows when nothing fails.\<close>

definition saveMany_steps :: "trx_id \<Rightarrow> addr list \<Rightarrow> event list" where
  "saveMany_steps t related =
     concat (map (\<lambda>row. [Hydrate (RowT row), SetTrx row t, RowSave row]) related)"

text \<open>
  The work of \<^verbatim>\<open>save\<close> up to the point where \<^verbatim>\<open>related.save()\<close> is about to be called.
\<close>

definition save_until_child_persist :: "HasManyQueryClient \<Rightarrow> addr \<Rightarrow> trx_id \<Rightarrow> unit action" where
  "save_until_child_persist this related trx =
     andThen (set_trx (this_parent this) trx) (\<lambda>_.
     andThen (row_save (this_parent this)) (\<lambda>_.
     andThen (hydrateForPersistance (keys_of (this_relation this)) (this_parent this) (RowT related)) (\<lambda>_.
     set_trx related trx)))"

text \<open>The rows written through a transaction and not yet committed.\<close>

definition writes :: "trx_id \<Rightarrow> world \<Rightarrow> ModelObject list" where
  "writes t w = (case pending w t of None \<Rightarrow> [] | Some ws \<Rightarrow> ws)"

text \<open>
  A triple for an action: from a world satisfying \<open>P\<close>, the action either returns \<open>x\<close> in a
  world satisfying \<open>Q x\<close>, or raises in a world satisfying \<open>E\<close>. An action keeps \<open>I\<close> stable
  when it leads from \<open>I\<close> to \<open>I\<close> whether it returns or raises; it emits \<open>P\<close> when it only
  appends events satisfying \<open>P\<close> to the trace.
\<close>

definition hoare ::
  "(world \<Rightarrow> bool) \<Rightarrow> 'a action \<Rightarrow> ('a \<Rightarrow> world \<Rightarrow> bool) \<Rightarrow> (world \<Rightarrow> bool) \<Rightarrow> bool" where
  "hoare P m Q E \<longleftrightarrow>
     (\<forall>w. P w \<longrightarrow> (case m w of (Inl e, w') \<Rightarrow> E w' | (Inr x, w') \<Rightarrow> Q x w'))"

definition stable :: "(world \<Rightarrow> bool) \<Rightarrow> 'a action \<Rightarrow> bool" where
  "stable I m \<longleftrightarrow> hoare I m (\<lambda>_. I) I"

definition emits :: "(event \<Rightarrow> bool) \<Rightarrow> 'a action \<Rightarrow> bool" where
  "emits P m \<longleftrightarrow> (\<forall>w. \<exists>es. trace (snd (m w)) = trace w @ es \<and> list_all P es)"

text \<open>An event that is not a call to the related model, or is the given call.\<close>

fun only_call :: "model_call \<Rightarrow> event \<Rightarrow> bool" where
  "only_call c (RelatedModel c' given) = (c' = c)"
| "only_call c ev = True"





text \<open>The calls to the related model.\<close>

fun model_call_event :: "event \<Rightarrow> bool" where
  "model_call_event (RelatedModel c given) = True"
| "model_call_event ev = False"


section \<open>Concrete scenarios\<close>

text \<open>
  A relation \<open>User\<close> has-many \<open>Post\<close>: the user's \<open>id\<close> is the local key, the post's
  \<open>userId\<close> the foreign key, stored in the column \<open>user_id\<close>.
\<close>

definition posts_keys :: RelationKeys where
  "posts_keys = \<lparr>localKey = ''id'', foreignKey = ''userId'', foreignCastAsKey = ''user_id''\<rparr>"

definition row_with_id :: "int \<Rightarrow> LucidRow" where
  "row_with_id n = \<lparr>attributes = [(''id'', VNum n)], row_trx = None\<rparr>"

text \<open>Four users whose ids are 1, 2, 2 and 3; every other row has no field at all.\<close>

definition users :: "addr \<Rightarrow> LucidRow" where
  "users = (\<lambda>a. \<lparr>attributes = [], row_trx = None\<rparr>)
     (0 := row_with_id 1, 1 := row_with_id 2, 2 := row_with_id 2, 3 := row_with_id 3)"

text \<open>A hook that restricts every query of the relation to published posts.\<close>

definition published_only :: query_hook where
  "published_only =
     \<lparr>on_query = (\<lambda>q. q\<lparr>knexBuilder := knexBuilder q @ [Where ''published'' (VNum 1)]\<rparr>),
      on_subquery = (\<lambda>q. q\<lparr>sub_knexBuilder := sub_knexBuilder q @ [Where ''published'' (VNum 1)]\<rparr>)\<rparr>"

definition posts :: HasMany where
  "posts = \<lparr>localKey = ''id'', foreignKey = ''userId'', foreignCastAsKey = ''user_id'',
            onQueryHook = None\<rparr>"

definition published_posts :: HasMany where
  "published_posts = posts\<lparr>onQueryHook := Some published_only\<rparr>"

text \<open>
  A new user (no id yet, no transaction) at address 0, three posts \<open>a\<close>, \<open>b\<close>, \<open>c\<close> as plain
  objects at addresses 0 to 2 and as rows at addresses 1 to 3. Nothing is stored yet, and
  the storage next hands out the key 1.
\<close>

definition post_titled :: "string \<Rightarrow> ModelObject" where
  "post_titled title = [(''title'', VStr title)]"

definition blog :: world where
  "blog =
     \<lparr>rows = (\<lambda>a. \<lparr>attributes = [], row_trx = None\<rparr>)
        (0 := \<lparr>attributes = [(''name'', VStr ''ann'')], row_trx = None\<rparr>,
         1 := \<lparr>attributes = post_titled ''a'', row_trx = None\<rparr>,
         2 := \<lparr>attributes = post_titled ''b'', row_trx = None\<rparr>,
         3 := \<lparr>attributes = post_titled ''c'', row_trx = None\<rparr>),
      objects = (\<lambda>a. [])(0 := post_titled ''a'', 1 := post_titled ''b'', 2 := post_titled ''c''),
      next_row = 4,
      next_object = 3,
      committed = [],
      pending = (\<lambda>t. None),
      next_trx = 0,
      next_key = 1,
      rejects = (\<lambda>obj. False),
      trace = []\<rparr>"

text \<open>The same, with a storage that refuses the post \<open>b\<close>.\<close>

definition blog_refusing_b :: world where
  "blog_refusing_b = blog\<lparr>rejects := (\<lambda>obj. map_of obj ''title'' = Some (VStr ''b''))\<rparr>"

text \<open>The same, with a storage that refuses the user.\<close>

definition blog_refusing_user :: world where
  "blog_refusing_user = blog\<lparr>rejects := (\<lambda>obj. map_of obj ''name'' = Some (VStr ''ann''))\<rparr>"

text \<open>The same as \<open>blog\<close>, with the user bound to a transaction 7 the caller has opened.\<close>

definition blog_in_trx :: world where
  "blog_in_trx =
     blog\<lparr>rows := (rows blog)(0 := \<lparr>attributes = [(''name'', VStr ''ann'')], row_trx = Some 7\<rparr>),
          pending := (\<lambda>t. None)(7 \<mapsto> []),
          next_trx := 8\<rparr>"

text \<open>The query client of the user's posts, on a plain client.\<close>

definition ann_posts :: HasManyQueryClient where
  "ann_posts = \<lparr>this_relation = posts, this_parent = 0, this_client = Client\<rparr>"





section \<open>Properties of HasManyQueryBuilder\<close>

lemma set_unique: "set (unique xs) = set xs"
  by (simp add: unique_def)

lemma distinct_unique: "distinct (unique xs)"
  by (simp add: unique_def)

lemma getValues_Inr_iff:
  "(\<exists>vs. getValues heap ps key rel action = Inr vs) \<longleftrightarrow>
   (\<forall>a\<in>set ps. \<exists>v. getValue (heap a) key rel action = Inr v)"
  by (induction ps) (auto split: sum.splits)

lemma getValues_Inr_map:
  "getValues heap ps key rel action = Inr vs \<Longrightarrow>
   map (\<lambda>a. getValue (heap a) key rel action) ps = map Inr vs"
  by (induction ps arbitrary: vs) (auto split: sum.splits)

text \<open>
  C1, as stated, fails: a builder bound to a parent whose local key is undefined has not
  had its constraints applied, yet \<^verbatim>\<open>applyConstraints\<close> raises the missing-key error and
  leaves the knex builder without any clause (the flag is set all the same).
\<close>

theorem applyConstraints_missing_key_counterexample:
  "applyConstraints users (new_HasManyQueryBuilder [] Client (One 4) posts_keys False) =
     (Inl (MissingKeyError QueryAction ''id''),
      \<lparr>knexBuilder = [], client = Client, parent = One 4, relation = posts_keys, isEager = False,
       appliedConstraints = True, isRelatedPreloadQuery = False\<rparr>)"
  by (simp add: applyConstraints_def new_HasManyQueryBuilder_def users_def getValue_def
      queryAction_def posts_keys_def)

text \<open>
  C1, amended: for every builder on which constraints have not yet been applied and whose
  bound parent rows all have a resolvable local key, \<^verbatim>\<open>applyConstraints\<close> returns normally
  and adds exactly one clause to the knex builder. For a single parent row the clause is
  an equality on the cast foreign-key column against the parent's resolved local-key value;
  for a sequence of parent rows it is a set-membership clause on that column whose values
  are distinct and are, as a set, the resolved local-key values of the parents.
\<close>

theorem applyConstraints_adds_relation_predicate:
  assumes fresh: "\<not> appliedConstraints b"
    and resolvable: "\<forall>a\<in>set (bound_rows (parent b)).
            \<exists>v. getValue (heap a) (localKey (relation b)) (relation b) QueryAction = Inr v"
  shows "\<exists>p. applyConstraints heap b =
            (Inr (), b\<lparr>appliedConstraints := True, knexBuilder := knexBuilder b @ [p]\<rparr>) \<and>
          (case parent b of
             One a \<Rightarrow>
               \<exists>v. getValue (heap a) (localKey (relation b)) (relation b) QueryAction = Inr v \<and>
                   p = Where (foreignCastAsKey (relation b)) v
           | Many ps \<Rightarrow>
               \<exists>vs us. map (\<lambda>a. getValue (heap a) (localKey (relation b)) (relation b) QueryAction) ps
                          = map Inr vs \<and>
                   p = WhereIn (foreignCastAsKey (relation b)) us \<and> distinct us \<and> set us = set vs)"
proof (cases "parent b")
  case (One a)
  with resolvable obtain v
    where "getValue (heap a) (localKey (relation b)) (relation b) QueryAction = Inr v"
    by auto
  with fresh One show ?thesis
    by (simp add: applyConstraints_def queryAction_def)
next
  case (Many ps)
  with resolvable
  have "\<exists>vs. getValues heap ps (localKey (relation b)) (relation b) QueryAction = Inr vs"
    by (simp add: getValues_Inr_iff)
  then obtain vs
    where vs: "getValues heap ps (localKey (relation b)) (relation b) QueryAction = Inr vs" ..
  from fresh Many vs have "applyConstraints heap b =
      (Inr (), b\<lparr>appliedConstraints := True,
         knexBuilder := knexBuilder b @ [WhereIn (foreignCastAsKey (relation b)) (unique vs)]\<rparr>)"
    by (simp add: applyConstraints_def queryAction_def)
  with Many getValues_Inr_map[OF vs] show ?thesis
    by (auto simp: set_unique distinct_unique)
qed

text \<open>
  The batch of the spec: parents whose local keys are 1, 2, 2 and 3 give the one clause
  \<open>user_id IN (1, 2, 3)\<close>.
\<close>

theorem applyConstraints_adds_relation_predicate_witness:
  "applyConstraints users (new_HasManyQueryBuilder [] Client (Many [0, 1, 2, 3]) posts_keys True) =
     (Inr (),
      \<lparr>knexBuilder = [WhereIn ''user_id'' [VNum 1, VNum 2, VNum 3]], client = Client,
       parent = Many [0, 1, 2, 3], relation = posts_keys, isEager = True,
       appliedConstraints = True, isRelatedPreloadQuery = False\<rparr>)"
  using applyConstraints_adds_relation_predicate
    [of "new_HasManyQueryBuilder [] Client (Many [0, 1, 2, 3]) posts_keys True" users]
  by (simp add: applyConstraints_def new_HasManyQueryBuilder_def users_def getValue_def
      queryAction_def posts_keys_def row_with_id_def unique_def)

lemma applyConstraints_sets_flag: "appliedConstraints (snd (applyConstraints heap b))"
  by (auto simp: applyConstraints_def Let_def split: parent_binding.splits sum.splits)

lemma applyConstraints_noop: "appliedConstraints b \<Longrightarrow> applyConstraints heap b = (Inr (), b)"
  by (simp add: applyConstraints_def)

lemma applyConstraints_calls_noop: "appliedConstraints b \<Longrightarrow> applyConstraints_calls heaps b = b"
  by (induction heaps arbitrary: b) (simp_all add: applyConstraints_noop)

lemma applyConstraints_at_most_one:
  "\<exists>ps. knexBuilder (snd (applyConstraints heap b)) = knexBuilder b @ ps \<and> length ps \<le> 1"
  by (auto simp: applyConstraints_def Let_def split: parent_binding.splits sum.splits)

text \<open>
  C2: a second call of \<^verbatim>\<open>applyConstraints\<close> returns at once and leaves the builder, and so
  its generated clauses, as the first call left them, whatever the rows look like by then;
  any number of calls leaves the builder as one call does; and over any number of calls at
  most one clause is added.
\<close>

theorem applyConstraints_idempotent:
  "applyConstraints heap2 (snd (applyConstraints heap1 b)) = (Inr (), snd (applyConstraints heap1 b)) \<and>
   applyConstraints_calls (heap1 # heaps) b = snd (applyConstraints heap1 b) \<and>
   (\<exists>ps. knexBuilder (applyConstraints_calls (heap1 # heaps) b) = knexBuilder b @ ps \<and> length ps \<le> 1)"
  using applyConstraints_at_most_one[of heap1 b]
  by (simp add: applyConstraints_noop applyConstraints_sets_flag applyConstraints_calls_noop)

theorem applyConstraints_idempotent_witness:
  "knexBuilder (applyConstraints_calls [users, users, users]
      (new_HasManyQueryBuilder [] Client (One 0) posts_keys False)) = [Where ''user_id'' (VNum 1)]"
  using applyConstraints_idempotent
    [of users users "new_HasManyQueryBuilder [] Client (One 0) posts_keys False" "[users, users]"]
  by (simp add: applyConstraints_def new_HasManyQueryBuilder_def users_def getValue_def
      queryAction_def posts_keys_def row_with_id_def)

section \<open>Properties of the builder factories\<close>

text \<open>
  C8: each of the three static factories \<^verbatim>\<open>query\<close>, \<^verbatim>\<open>eagerQuery\<close> and \<^verbatim>\<open>subQuery\<close> calls a
  registered hook exactly once, with the builder it has just constructed (for \<^verbatim>\<open>eagerQuery\<close>
  after the preload flag is set), and returns the builder as the hook left it; with no hook
  registered it makes no hook call and returns the new builder. \<^verbatim>\<open>subQuery\<close> binds no parent
  and calls the hook all the same.
\<close>

theorem factories_call_hook_once:
  "(case onQueryHook rel of
      None \<Rightarrow>
        query cl rel row = (new_HasManyQueryBuilder [] cl (One row) (keys_of rel) False, []) \<and>
        eagerQuery cl rel parents =
          ((new_HasManyQueryBuilder [] cl parents (keys_of rel) False)\<lparr>isRelatedPreloadQuery := True\<rparr>, []) \<and>
        subQuery cl rel =
          (\<lparr>sub_knexBuilder = [], sub_client = cl, sub_relation = keys_of rel\<rparr>, [])
    | Some hook \<Rightarrow>
        query cl rel row =
          (on_query hook (new_HasManyQueryBuilder [] cl (One row) (keys_of rel) False),
           [new_HasManyQueryBuilder [] cl (One row) (keys_of rel) False]) \<and>
        eagerQuery cl rel parents =
          (on_query hook
             ((new_HasManyQueryBuilder [] cl parents (keys_of rel) False)\<lparr>isRelatedPreloadQuery := True\<rparr>),
           [(new_HasManyQueryBuilder [] cl parents (keys_of rel) False)\<lparr>isRelatedPreloadQuery := True\<rparr>]) \<and>
        subQuery cl rel =
          (on_subquery hook \<lparr>sub_knexBuilder = [], sub_client = cl, sub_relation = keys_of rel\<rparr>,
           [\<lparr>sub_knexBuilder = [], sub_client = cl, sub_relation = keys_of rel\<rparr>]))"
  by (simp add: query_def eagerQuery_def subQuery_def invoke_hook_def knexQuery_def Let_def
      split: option.split)

theorem factories_call_hook_once_witness:
  "length (snd (query Client published_posts 0)) = 1 \<and>
   length (snd (eagerQuery Client published_posts (Many [0, 1, 2]))) = 1 \<and>
   length (snd (subQuery Client published_posts)) = 1 \<and>
   sub_knexBuilder (fst (subQuery Client published_posts)) = [Where ''published'' (VNum 1)] \<and>
   snd (query Client posts 0) = [] \<and>
   snd (eagerQuery Client posts (Many [0, 1, 2])) = [] \<and>
   snd (subQuery Client posts) = []"
  using factories_call_hook_once
      [where rel = published_posts and cl = Client and row = 0 and parents = "Many [0, 1, 2]"]
    factories_call_hook_once
      [where rel = posts and cl = Client and row = 0 and parents = "Many [0, 1, 2]"]
  by (simp add: published_posts_def posts_def published_only_def)

text \<open>
  C10: the instance method \<^verbatim>\<open>query()\<close> is the static factory applied to the client's own
  client, relation and parent row. Both construct the same builder, bound to the parent row
  and to the relation's keys, with the preload flag false, and both hand it to the hook in
  the same way.
\<close>

theorem this_query_is_static_query:
  "this_query this = query (this_client this) (this_relation this) (this_parent this) \<and>
   this_query this =
     invoke_hook (map_option on_query (onQueryHook (this_relation this)))
       (new_HasManyQueryBuilder [] (this_client this) (One (this_parent this))
          (keys_of (this_relation this)) False) \<and>
   parent (new_HasManyQueryBuilder [] (this_client this) (One (this_parent this))
          (keys_of (this_relation this)) False) = One (this_parent this) \<and>
   relation (new_HasManyQueryBuilder [] (this_client this) (One (this_parent this))
          (keys_of (this_relation this)) False) = keys_of (this_relation this) \<and>
   isRelatedPreloadQuery (new_HasManyQueryBuilder [] (this_client this) (One (this_parent this))
          (keys_of (this_relation this)) False) = False"
  by (simp add: this_query_def query_def knexQuery_def new_HasManyQueryBuilder_def)

section \<open>Reasoning about actions\<close>

lemma snd_andThen:
  "snd (andThen m f w) = (case fst (m w) of Inl e \<Rightarrow> snd (m w) | Inr x \<Rightarrow> snd (f x (snd (m w))))"
  by (simp add: andThen_def split: prod.splits sum.splits)

lemma fst_andThen:
  "fst (andThen m f w) = (case fst (m w) of Inl e \<Rightarrow> Inl e | Inr x \<Rightarrow> fst (f x (snd (m w))))"
  by (simp add: andThen_def split: prod.splits sum.splits)

lemma succeed_simps [simp]: "fst (succeed x w) = Inr x" "snd (succeed x w) = w"
  by (simp_all add: succeed_def)

lemma hoare_andThen:
  assumes "hoare P m Q E" and "\<And>x. hoare (Q x) (f x) R E"
  shows "hoare P (andThen m f) R E"
  using assms unfolding hoare_def andThen_def
  by (fastforce split: prod.splits sum.splits)

lemma hoare_fst_snd:
  assumes "\<And>w. P w \<Longrightarrow> (case fst (m w) of Inl e \<Rightarrow> E (snd (m w)) | Inr x \<Rightarrow> Q x (snd (m w)))"
  shows "hoare P m Q E"
  unfolding hoare_def
proof (intro allI impI)
  fix w assume "P w"
  from assms[OF this] show "case m w of (Inl e, w') \<Rightarrow> E w' | (Inr x, w') \<Rightarrow> Q x w'"
    by (cases "m w") (auto split: sum.splits)
qed

lemma hoareD:
  assumes "hoare P m Q E" and "P w"
  shows "case fst (m w) of Inl e \<Rightarrow> E (snd (m w)) | Inr x \<Rightarrow> Q x (snd (m w))"
  using assms unfolding hoare_def by (cases "m w") (auto split: sum.splits dest!: spec[of _ w])

lemma stableI: "(\<And>w. I w \<Longrightarrow> I (snd (m w))) \<Longrightarrow> stable I m"
  unfolding stable_def by (rule hoare_fst_snd) (simp split: sum.splits)

lemma stableD: "stable I m \<Longrightarrow> I w \<Longrightarrow> I (snd (m w))"
  unfolding stable_def by (drule (1) hoareD) (simp split: sum.splits)

lemma stable_andThen: "stable I m \<Longrightarrow> (\<And>x. stable I (f x)) \<Longrightarrow> stable I (andThen m f)"
  unfolding stable_def by (rule hoare_andThen)

lemma stable_succeed: "stable I (succeed x)"
  by (rule stableI) simp

lemma stable_each: "(\<And>x. stable I (f x)) \<Longrightarrow> stable I (each f xs)"
  by (induction xs) (auto intro!: stable_andThen stable_succeed)

lemma emitsI: "(\<And>w. \<exists>es. trace (snd (m w)) = trace w @ es \<and> list_all P es) \<Longrightarrow> emits P m"
  by (simp add: emits_def)

lemma emitsD: "emits P m \<Longrightarrow> \<exists>es. trace (snd (m w)) = trace w @ es \<and> list_all P es"
  by (simp add: emits_def)

lemma emits_andThen:
  assumes "emits P m" and "\<And>x. emits P (f x)"
  shows "emits P (andThen m f)"
proof (rule emitsI)
  fix w
  from emitsD[OF assms(1), of w] obtain es1
    where 1: "trace (snd (m w)) = trace w @ es1" "list_all P es1" by blast
  show "\<exists>es. trace (snd (andThen m f w)) = trace w @ es \<and> list_all P es"
  proof (cases "fst (m w)")
    case (Inl e)
    with 1 show ?thesis by (simp add: snd_andThen)
  next
    case (Inr x)
    from emitsD[OF assms(2), of x "snd (m w)"] obtain es2
      where "trace (snd (f x (snd (m w)))) = trace (snd (m w)) @ es2" "list_all P es2" by blast
    with Inr 1 show ?thesis by (simp add: snd_andThen)
  qed
qed

lemma emits_succeed: "emits P (succeed x)"
  by (rule emitsI) simp

lemma emits_each: "(\<And>x. emits P (f x)) \<Longrightarrow> emits P (each f xs)"
  by (induction xs) (auto intro!: emits_andThen emits_succeed)

lemma emits_silent: "(\<And>w. trace (snd (m w)) = trace w) \<Longrightarrow> emits P m"
  by (rule emitsI) simp

lemma emits_one: "(\<And>w. trace (snd (m w)) = trace w @ [ev]) \<Longrightarrow> P ev \<Longrightarrow> emits P m"
  by (rule emitsI) simp

section \<open>What each step changes\<close>

lemma write_row_frame [simp]:
  "trace (snd (write_row h s w)) = trace w"
  "rows (snd (write_row h s w)) = rows w"
  "objects (snd (write_row h s w)) = objects w"
  "next_row (snd (write_row h s w)) = next_row w"
  "next_object (snd (write_row h s w)) = next_object w"
  "next_trx (snd (write_row h s w)) = next_trx w"
  "next_key (snd (write_row h s w)) = next_key w"
  "rejects (snd (write_row h s w)) = rejects w"
  by (simp_all add: write_row_def split: option.splits)

lemma write_row_committed [simp]:
  "committed (snd (write_row (Some t) s w)) = committed w"
  by (simp add: write_row_def split: option.splits)

lemma row_save_frame [simp]:
  "trace (snd (row_save a w)) = trace w @ [RowSave a]"
  "objects (snd (row_save a w)) = objects w"
  "next_row (snd (row_save a w)) = next_row w"
  "next_object (snd (row_save a w)) = next_object w"
  "next_trx (snd (row_save a w)) = next_trx w"
  "rejects (snd (row_save a w)) = rejects w"
  "row_trx (rows (snd (row_save a w)) b) = row_trx (rows w b)"
  by (simp_all add: row_save_def Let_def emit_def split_beta split: sum.splits)

lemma row_save_other: "b \<noteq> a \<Longrightarrow> rows (snd (row_save a w)) b = rows w b"
  by (simp add: row_save_def Let_def emit_def split_beta split: sum.splits)

lemma row_save_committed [simp]:
  "row_trx (rows w a) = Some t \<Longrightarrow> committed (snd (row_save a w)) = committed w"
  by (simp add: row_save_def Let_def emit_def split_beta split: sum.splits)

lemma set_trx_frame [simp]:
  "fst (set_trx a t w) = Inr ()"
  "trace (snd (set_trx a t w)) = trace w @ [SetTrx a t]"
  "objects (snd (set_trx a t w)) = objects w"
  "committed (snd (set_trx a t w)) = committed w"
  "pending (snd (set_trx a t w)) = pending w"
  "next_row (snd (set_trx a t w)) = next_row w"
  "next_object (snd (set_trx a t w)) = next_object w"
  "next_trx (snd (set_trx a t w)) = next_trx w"
  "rows (snd (set_trx a t w)) = (rows w)(a := (rows w a)\<lparr>row_trx := Some t\<rparr>)"
  by (simp_all add: set_trx_def emit_def)

lemma hydrate_frame [simp]:
  "trace (snd (hydrateForPersistance rel p tg w)) = trace w @ [Hydrate tg]"
  "committed (snd (hydrateForPersistance rel p tg w)) = committed w"
  "pending (snd (hydrateForPersistance rel p tg w)) = pending w"
  "next_row (snd (hydrateForPersistance rel p tg w)) = next_row w"
  "next_object (snd (hydrateForPersistance rel p tg w)) = next_object w"
  "next_trx (snd (hydrateForPersistance rel p tg w)) = next_trx w"
  "row_trx (rows (snd (hydrateForPersistance rel p tg w)) b) = row_trx (rows w b)"
  by (simp_all add: hydrateForPersistance_def Let_def emit_def split: sum.splits target.splits)

lemma copy_object_frame [simp]:
  "fst (copy_object a w) = Inr (next_object w)"
  "trace (snd (copy_object a w)) = trace w"
  "committed (snd (copy_object a w)) = committed w"
  "pending (snd (copy_object a w)) = pending w"
  "rows (snd (copy_object a w)) = rows w"
  "next_row (snd (copy_object a w)) = next_row w"
  "next_object (snd (copy_object a w)) = Suc (next_object w)"
  "objects (snd (copy_object a w)) = (objects w)(next_object w := objects w a)"
  by (simp_all add: copy_object_def)

lemma new_row_frame [simp]:
  "fst (new_row attrs t w) = Inr (next_row w)"
  "trace (snd (new_row attrs t w)) = trace w"
  "committed (snd (new_row attrs t w)) = committed w"
  "pending (snd (new_row attrs t w)) = pending w"
  "objects (snd (new_row attrs t w)) = objects w"
  "next_object (snd (new_row attrs t w)) = next_object w"
  "next_row (snd (new_row attrs t w)) = Suc (next_row w)"
  "rows (snd (new_row attrs t w)) = (rows w)(next_row w := \<lparr>attributes = attrs, row_trx = t\<rparr>)"
  by (simp_all add: new_row_def)

lemma called_frame [simp]:
  "fst (called c given w) = Inr ()"
  "trace (snd (called c given w)) = trace w @ [RelatedModel c given]"
  "committed (snd (called c given w)) = committed w"
  "pending (snd (called c given w)) = pending w"
  "objects (snd (called c given w)) = objects w"
  "rows (snd (called c given w)) = rows w"
  "next_object (snd (called c given w)) = next_object w"
  "next_row (snd (called c given w)) = next_row w"
  by (simp_all add: called_def emit_def)

lemma read_object_frame [simp]:
  "fst (read_object a w) = Inr (objects w a)"
  "snd (read_object a w) = w"
  by (simp_all add: read_object_def)

lemma first_or_create_cases:
  "(\<exists>r. first_or_create search attrs t w = new_row r t w) \<or>
   first_or_create search attrs t w = insert_new attrs t w"
  by (auto simp: first_or_create_def split: option.splits)

lemma update_or_create_cases:
  "\<exists>attrs. update_or_create search updates t w = insert_new attrs t w"
  by (auto simp: update_or_create_def split: option.splits)

section \<open>The events each step emits\<close>

lemma emits_set_trx: "P (SetTrx a t) \<Longrightarrow> emits P (set_trx a t)"
  by (rule emits_one) simp_all

lemma emits_row_save: "P (RowSave a) \<Longrightarrow> emits P (row_save a)"
  by (rule emits_one) simp_all

lemma emits_hydrate: "P (Hydrate tg) \<Longrightarrow> emits P (hydrateForPersistance rel p tg)"
  by (rule emits_one) simp_all

lemma emits_called: "P (RelatedModel c given) \<Longrightarrow> emits P (called c given)"
  by (rule emits_one) simp_all

lemma emits_copy_object: "emits P (copy_object a)"
  by (rule emits_silent) simp

lemma emits_read_object: "emits P (read_object a)"
  by (rule emits_silent) simp

lemma emits_new_row: "emits P (new_row attrs t)"
  by (rule emits_silent) simp

lemma emits_insert_new: "(\<And>a. P (RowSave a)) \<Longrightarrow> emits P (insert_new attrs t)"
  unfolding insert_new_def
  by (intro emits_andThen emits_new_row emits_row_save emits_succeed)

lemma emits_first_or_create: "(\<And>a. P (RowSave a)) \<Longrightarrow> emits P (first_or_create search attrs t)"
proof (rule emitsI)
  fix w assume "\<And>a. P (RowSave a)"
  then show "\<exists>es. trace (snd (first_or_create search attrs t w)) = trace w @ es \<and> list_all P es"
    using first_or_create_cases[of search attrs t w]
      emitsD[OF emits_insert_new[of P attrs t], of w]
    by auto
qed

lemma emits_update_or_create: "(\<And>a. P (RowSave a)) \<Longrightarrow> emits P (update_or_create search updates t)"
proof (rule emitsI)
  fix w assume P: "\<And>a. P (RowSave a)"
  from update_or_create_cases[of search updates t w] obtain attrs
    where "update_or_create search updates t w = insert_new attrs t w" ..
  then show "\<exists>es. trace (snd (update_or_create search updates t w)) = trace w @ es \<and> list_all P es"
    using emitsD[OF emits_insert_new[of P attrs t], of w] P by simp
qed

section \<open>Writes stay inside the transaction\<close>



















section \<open>The shape of the trace of a write operation\<close>

lemmas emits_steps =
  emits_andThen emits_each emits_succeed emits_set_trx emits_row_save emits_hydrate
  emits_called emits_copy_object emits_read_object emits_new_row emits_insert_new
  emits_first_or_create emits_update_or_create

lemma no_transaction_call_simps [simp]:
  "no_transaction_call (SetTrx a t)"
  "no_transaction_call (Hydrate tg)"
  "no_transaction_call (RowSave a)"
  "no_transaction_call (RelatedModel k given)"
  "\<not> no_transaction_call (Begin t)"
  "\<not> no_transaction_call (Commit t)"
  "\<not> no_transaction_call (Rollback t)"
  by (simp_all add: no_transaction_call_def)

lemma quiet_saveMany_loop: "emits no_transaction_call (saveMany_loop this t related)"
  by (induction related) (auto intro!: emits_steps)

text \<open>
  Every work starts by binding the parent to the transaction and saving the parent; what
  follows makes no call to the transaction layer.
\<close>

lemma work_skeleton:
  "\<exists>rest. work_of this op t =
            andThen (set_trx (this_parent this) t) (\<lambda>_. andThen (row_save (this_parent this)) (\<lambda>_. rest)) \<and>
          emits no_transaction_call rest"
proof (cases op)
  case (OpSave related)
  show ?thesis unfolding OpSave work_of.simps save_work_def
    by (intro exI conjI, rule refl) (intro emits_steps; simp)
next
  case (OpSaveMany related)
  show ?thesis unfolding OpSaveMany work_of.simps saveMany_work_def
    by (intro exI conjI, rule refl) (intro emits_steps quiet_saveMany_loop)
next
  case (OpCreate vals options)
  show ?thesis unfolding OpCreate work_of.simps create_work_def relatedModel_create_def
    by (intro exI conjI, rule refl) (intro emits_steps; simp)
next
  case (OpCreateMany vals options)
  show ?thesis
    unfolding OpCreateMany work_of.simps createMany_work_def relatedModel_createMany_def
      copy_hydrated_def
    by (intro exI conjI, rule refl) (intro emits_steps; simp)
next
  case (OpFirstOrCreate search savePayload options)
  show ?thesis
    unfolding OpFirstOrCreate work_of.simps firstOrCreate_work_def relatedModel_firstOrCreate_def
    by (intro exI conjI, rule refl) (cases savePayload; simp; intro emits_steps; simp)
next
  case (OpUpdateOrCreate search updatePayload options)
  show ?thesis
    unfolding OpUpdateOrCreate work_of.simps updateOrCreate_work_def relatedModel_updateOrCreate_def
    by (intro exI conjI, rule refl) (intro emits_steps; simp)
next
  case (OpFetchOrCreateMany payload predicate options)
  show ?thesis
    unfolding OpFetchOrCreateMany work_of.simps fetchOrCreateMany_work_def
      relatedModel_fetchOrCreateMany_def hydrate_payload_def
    by (intro exI conjI, rule refl) (intro emits_steps; simp)
next
  case (OpUpdateOrCreateMany payload predicate options)
  show ?thesis
    unfolding OpUpdateOrCreateMany work_of.simps updateOrCreateMany_work_def
      relatedModel_updateOrCreateMany_def hydrate_payload_def
    by (intro exI conjI, rule refl) (intro emits_steps; simp)
qed

lemma trace_work:
  "\<exists>es. trace (snd (work_of this op t w)) =
          trace w @ SetTrx (this_parent this) t # RowSave (this_parent this) # es \<and>
        list_all no_transaction_call es"
proof -
  from work_skeleton[of this op t] obtain rest
    where eq: "work_of this op t =
            andThen (set_trx (this_parent this) t) (\<lambda>_. andThen (row_save (this_parent this)) (\<lambda>_. rest))"
      and quiet: "emits no_transaction_call rest" by blast
  let ?w2 = "snd (row_save (this_parent this) (snd (set_trx (this_parent this) t w)))"
  from emitsD[OF quiet, of ?w2] obtain es
    where "trace (snd (rest ?w2)) = trace ?w2 @ es" "list_all no_transaction_call es" by blast
  then show ?thesis
    unfolding eq by (auto simp: snd_andThen split: sum.splits)
qed

section \<open>The coordinator\<close>

lemma begin_trx_frame [simp]:
  "fst (begin_trx w) = next_trx w"
  "trace (snd (begin_trx w)) = trace w @ [Begin (next_trx w)]"
  "committed (snd (begin_trx w)) = committed w"
  "rows (snd (begin_trx w)) = rows w"
  "objects (snd (begin_trx w)) = objects w"
  "next_row (snd (begin_trx w)) = next_row w"
  "next_object (snd (begin_trx w)) = next_object w"
  "pending (snd (begin_trx w)) = (pending w)(next_trx w \<mapsto> [])"
  by (simp_all add: begin_trx_def emit_def)

lemma commit_trx_frame [simp]:
  "trace (commit_trx t w) = trace w @ [Commit t]"
  "committed (commit_trx t w) = committed w @ writes t w"
  "rows (commit_trx t w) = rows w"
  "objects (commit_trx t w) = objects w"
  "next_row (commit_trx t w) = next_row w"
  "next_object (commit_trx t w) = next_object w"
  "pending (commit_trx t w) = (pending w)(t := None)"
  by (simp_all add: commit_trx_def emit_def writes_def)

lemma rollback_trx_frame [simp]:
  "trace (rollback_trx t w) = trace w @ [Rollback t]"
  "committed (rollback_trx t w) = committed w"
  "rows (rollback_trx t w) = rows w"
  "objects (rollback_trx t w) = objects w"
  "next_row (rollback_trx t w) = next_row w"
  "next_object (rollback_trx t w) = next_object w"
  "pending (rollback_trx t w) = (pending w)(t := None)"
  by (simp_all add: rollback_trx_def emit_def)

lemma managedTransaction_Trx [simp]: "managedTransaction (Trx t) work w = work t w"
  by (simp add: managedTransaction_def)

lemma fst_managedTransaction_Client:
  "fst (managedTransaction Client work w) = fst (work (next_trx w) (snd (begin_trx w)))"
  by (simp add: managedTransaction_def split_beta begin_trx_def split: prod.splits sum.splits)

lemma snd_managedTransaction_Client:
  "snd (managedTransaction Client work w) =
     (case fst (work (next_trx w) (snd (begin_trx w))) of
        Inl e \<Rightarrow> rollback_trx (next_trx w) (snd (work (next_trx w) (snd (begin_trx w))))
      | Inr r \<Rightarrow> commit_trx (next_trx w) (snd (work (next_trx w) (snd (begin_trx w)))))"
  by (simp add: managedTransaction_def split_beta begin_trx_def split: prod.splits sum.splits)

text \<open>The world in which the work of an operation starts.\<close>

lemma fst_managedTransaction:
  "fst (managedTransaction h work w) =
     fst (work (case h of Trx t \<Rightarrow> t | Client \<Rightarrow> next_trx w)
               (case h of Trx t \<Rightarrow> w | Client \<Rightarrow> snd (begin_trx w)))"
  by (cases h) (simp_all add: fst_managedTransaction_Client)

lemma save_work_returns: "fst (save_work this related t w) = Inr x \<Longrightarrow> x = RVoid"
  by (simp add: save_work_def fst_andThen split: sum.splits)

lemma saveMany_work_returns: "fst (saveMany_work this related t w) = Inr x \<Longrightarrow> x = RVoid"
  by (simp add: saveMany_work_def fst_andThen split: sum.splits)

lemma andThen_void:
  assumes "\<And>x. fst (m w) = Inr x \<Longrightarrow> x = RVoid"
  shows "andThen m (\<lambda>_. succeed RVoid) w = m w"
  using assms by (cases "m w") (auto simp: andThen_def succeed_def split: sum.splits)

lemma invoke_eq: "invoke this op w = managedTransaction (trx_or_client this w) (work_of this op) w"
proof (cases op)
  case (OpSave related)
  show ?thesis unfolding OpSave invoke.simps work_of.simps save_def
    by (rule andThen_void) (auto simp: fst_managedTransaction dest: save_work_returns)
next
  case (OpSaveMany related)
  show ?thesis unfolding OpSaveMany invoke.simps work_of.simps saveMany_def
    by (rule andThen_void) (auto simp: fst_managedTransaction dest: saveMany_work_returns)
qed (simp_all add: create_def createMany_def firstOrCreate_def updateOrCreate_def
      fetchOrCreateMany_def updateOrCreateMany_def)

lemma trace_invoke_inherited:
  assumes "trx_or_client this w = Trx t"
  shows "\<exists>es. trace (snd (invoke this op w)) =
               trace w @ SetTrx (this_parent this) t # RowSave (this_parent this) # es \<and>
             list_all no_transaction_call es"
  using trace_work[of this op t w] assms by (simp add: invoke_eq)

lemma trace_invoke_owned:
  assumes "trx_or_client this w = Client"
  shows "\<exists>es. trace (snd (invoke this op w)) =
               trace w @ Begin (next_trx w) # SetTrx (this_parent this) (next_trx w) #
                 RowSave (this_parent this) # es @
                 [case fst (invoke this op w) of Inl e \<Rightarrow> Rollback (next_trx w) | Inr r \<Rightarrow> Commit (next_trx w)] \<and>
             list_all no_transaction_call es"
  using trace_work[of this op "next_trx w" "snd (begin_trx w)"] assms
  by (auto simp: invoke_eq snd_managedTransaction_Client fst_managedTransaction_Client
      split: sum.splits)

lemma filter_quiet: "list_all no_transaction_call es \<Longrightarrow> filter no_transaction_call es = es"
  by (induction es) auto

lemma steps_invoke:
  "\<exists>es. steps_since w (snd (invoke this op w)) =
          SetTrx (this_parent this) (resolved_trx this w) # RowSave (this_parent this) # es"
proof (cases "trx_or_client this w")
  case Client
  from trace_invoke_owned[OF this, of op] show ?thesis
    by (auto simp: steps_since_def events_since_def resolved_trx_def Client filter_quiet
        split: sum.splits)
next
  case (Trx t)
  from trace_invoke_inherited[OF this, of op] show ?thesis
    by (auto simp: steps_since_def events_since_def resolved_trx_def Trx filter_quiet)
qed

lemmas run_defs =
  invoke.simps save_def saveMany_def create_def createMany_def firstOrCreate_def
  updateOrCreate_def fetchOrCreateMany_def updateOrCreateMany_def
  save_work_def saveMany_work_def create_work_def createMany_work_def firstOrCreate_work_def
  updateOrCreate_work_def fetchOrCreateMany_work_def updateOrCreateMany_work_def
  saveMany_loop.simps copy_hydrated_def hydrate_payload_def predicate_fields_def
  normalize_predicate_def trx_or_client_def managedTransaction_def begin_trx_def commit_trx_def
  rollback_trx_def set_trx_def write_row_def row_save_def hydrateForPersistance_def
  copy_object_def new_row_def insert_new_def visible_def matches_def merge_def
  restrict_fields_def first_or_create_def update_or_create_def each.simps spread_def called_def
  client_binding_def seen_def
  read_object_def relatedModel_create_def relatedModel_createMany_def
  relatedModel_firstOrCreate_def relatedModel_updateOrCreate_def
  relatedModel_fetchOrCreateMany_def relatedModel_updateOrCreateMany_def
  succeed_def andThen_def emit_def getValue_def primaryKey_def keys_of_def
  blog_def blog_refusing_b_def blog_refusing_user_def blog_in_trx_def ann_posts_def posts_def
  post_titled_def Let_def

section \<open>Properties of the write operations\<close>

text \<open>
  C4: every write operation hands \<^verbatim>\<open>this.parent.$trx || this.client\<close> to the coordinator: the
  parent's current transaction when it has one, otherwise the client. The work then runs
  with the resolved transaction (the inherited one, or the one opened on the plain client).
  When the transaction is inherited from the parent, the operation makes no call to the
  transaction layer at all: no begin, no commit, no rollback. In every case the first step of
  the operation is the assignment of the resolved transaction to the parent's \<^verbatim>\<open>$trx\<close>, ahead
  of the parent's save and of everything else.
\<close>

theorem transaction_resolved_from_parent:
  "trx_or_client this w =
     (case row_trx (rows w (this_parent this)) of Some t \<Rightarrow> Trx t | None \<Rightarrow> this_client this) \<and>
   invoke this op w = managedTransaction (trx_or_client this w) (work_of this op) w \<and>
   fst (invoke this op w) =
     fst (work_of this op (resolved_trx this w)
            (case trx_or_client this w of Trx t \<Rightarrow> w | Client \<Rightarrow> snd (begin_trx w))) \<and>
   (\<forall>t. row_trx (rows w (this_parent this)) = Some t \<longrightarrow>
        resolved_trx this w = t \<and>
        list_all no_transaction_call (events_since w (snd (invoke this op w)))) \<and>
   (\<exists>es. steps_since w (snd (invoke this op w)) =
           SetTrx (this_parent this) (resolved_trx this w) # es)"
proof -
  have "fst (invoke this op w) =
     fst (work_of this op (resolved_trx this w)
            (case trx_or_client this w of Trx t \<Rightarrow> w | Client \<Rightarrow> snd (begin_trx w)))"
    by (simp add: invoke_eq fst_managedTransaction resolved_trx_def)
  moreover have "\<forall>t. row_trx (rows w (this_parent this)) = Some t \<longrightarrow>
        resolved_trx this w = t \<and>
        list_all no_transaction_call (events_since w (snd (invoke this op w)))"
  proof (intro allI impI)
    fix t assume "row_trx (rows w (this_parent this)) = Some t"
    then have inherited: "trx_or_client this w = Trx t"
      by (simp add: trx_or_client_def)
    from trace_invoke_inherited[OF this, of op] inherited
    show "resolved_trx this w = t \<and>
        list_all no_transaction_call (events_since w (snd (invoke this op w)))"
      by (auto simp: events_since_def resolved_trx_def)
  qed
  moreover from steps_invoke[of w this op]
  have "\<exists>es. steps_since w (snd (invoke this op w)) =
           SetTrx (this_parent this) (resolved_trx this w) # es"
    by blast
  ultimately show ?thesis
    by (simp add: invoke_eq) (simp add: trx_or_client_def)
qed

text \<open>
  \<^verbatim>\<open>saveMany\<close> for a user bound to the caller's transaction 7: the three posts are written
  through transaction 7, which is neither committed nor rolled back.
\<close>

theorem transaction_resolved_from_parent_witness:
  "row_trx (rows blog_in_trx (this_parent ann_posts)) = Some 7 \<and>
   trace (snd (invoke ann_posts (OpSaveMany [1, 2, 3]) blog_in_trx)) =
     [SetTrx 0 7, RowSave 0, Hydrate (RowT 1), SetTrx 1 7, RowSave 1,
      Hydrate (RowT 2), SetTrx 2 7, RowSave 2, Hydrate (RowT 3), SetTrx 3 7, RowSave 3] \<and>
   committed (snd (invoke ann_posts (OpSaveMany [1, 2, 3]) blog_in_trx)) = [] \<and>
   map (\<lambda>r. map_of r ''userId'') (writes 7 (snd (invoke ann_posts (OpSaveMany [1, 2, 3]) blog_in_trx))) =
     [None, Some (VNum 1), Some (VNum 1), Some (VNum 1)]"
proof -
  have run:
    "row_trx (rows blog_in_trx (this_parent ann_posts)) = Some 7"
    "trace (snd (invoke ann_posts (OpSaveMany [1, 2, 3]) blog_in_trx)) =
     [SetTrx 0 7, RowSave 0, Hydrate (RowT 1), SetTrx 1 7, RowSave 1,
      Hydrate (RowT 2), SetTrx 2 7, RowSave 2, Hydrate (RowT 3), SetTrx 3 7, RowSave 3]"
    "committed (snd (invoke ann_posts (OpSaveMany [1, 2, 3]) blog_in_trx)) = []"
    "map (\<lambda>r. map_of r ''userId'') (writes 7 (snd (invoke ann_posts (OpSaveMany [1, 2, 3]) blog_in_trx))) =
     [None, Some (VNum 1), Some (VNum 1), Some (VNum 1)]"
    by (simp_all add: run_defs writes_def)
  from transaction_resolved_from_parent [of ann_posts blog_in_trx "OpSaveMany [1, 2, 3]"] run
  show ?thesis
    by blast
qed

lemma emits_managedTransaction:
  assumes "\<And>t. emits P (work t)" and "\<And>t. P (Begin t)" and "\<And>t. P (Commit t)" and "\<And>t. P (Rollback t)"
  shows "emits P (managedTransaction h work)"
proof (rule emitsI)
  fix w
  show "\<exists>es. trace (snd (managedTransaction h work w)) = trace w @ es \<and> list_all P es"
  proof (cases h)
    case (Trx t)
    with emitsD[OF assms(1), of t w] show ?thesis by simp
  next
    case Client
    from emitsD[OF assms(1), of "next_trx w" "snd (begin_trx w)"] obtain es
      where "trace (snd (work (next_trx w) (snd (begin_trx w)))) = trace (snd (begin_trx w)) @ es"
        and "list_all P es" by blast
    with Client assms(2-4) show ?thesis
      by (auto simp: snd_managedTransaction_Client split: sum.splits)
  qed
qed

lemma events_since_emits:
  assumes "emits P m"
  shows "list_all P (events_since w (snd (m w)))"
  using emitsD[OF assms, of w] by (auto simp: events_since_def)

lemma emits_hydrate_payload: "P (Hydrate (ObjT row)) \<Longrightarrow> emits P (hydrate_payload this row)"
  unfolding hydrate_payload_def by (rule emits_hydrate)

section \<open>Order of the steps\<close>

lemma trace_saveMany_loop:
  "\<exists>es. trace (snd (saveMany_loop this t related w)) = trace w @ es \<and>
        prefix es (saveMany_steps t related) \<and>
        (\<forall>x. fst (saveMany_loop this t related w) = Inr x \<longrightarrow> es = saveMany_steps t related)"
proof (induction related arbitrary: w)
  case Nil
  show ?case by (simp add: saveMany_steps_def)
next
  case (Cons row related)
  let ?h = "hydrateForPersistance (keys_of (this_relation this)) (this_parent this) (RowT row)"
  let ?w1 = "snd (?h w)"
  let ?w2 = "snd (set_trx row t ?w1)"
  let ?w3 = "snd (row_save row ?w2)"
  from Cons.IH[of ?w3] obtain es
    where es: "trace (snd (saveMany_loop this t related ?w3)) = trace ?w3 @ es"
      "prefix es (saveMany_steps t related)"
      "\<forall>x. fst (saveMany_loop this t related ?w3) = Inr x \<longrightarrow> es = saveMany_steps t related"
    by blast
  have steps: "saveMany_steps t (row # related) =
      Hydrate (RowT row) # SetTrx row t # RowSave row # saveMany_steps t related"
    by (simp add: saveMany_steps_def)
  show ?case
  proof (cases "fst (?h w)")
    case (Inl e)
    then show ?thesis
      by (simp add: snd_andThen fst_andThen steps)
  next
    case hydrated: (Inr u)
    show ?thesis
    proof (cases "fst (row_save row ?w2)")
      case (Inl e)
      with hydrated show ?thesis
        by (simp add: snd_andThen fst_andThen steps)
    next
      case (Inr u')
      with hydrated es show ?thesis
        by (simp add: snd_andThen fst_andThen steps)
    qed
  qed
qed

lemma trace_saveMany_work:
  "\<exists>es. trace (snd (saveMany_work this related t w)) =
          trace w @ SetTrx (this_parent this) t # RowSave (this_parent this) # es \<and>
        prefix es (saveMany_steps t related) \<and>
        (\<forall>x. fst (saveMany_work this related t w) = Inr x \<longrightarrow> es = saveMany_steps t related)"
proof -
  let ?w2 = "snd (row_save (this_parent this) (snd (set_trx (this_parent this) t w)))"
  from trace_saveMany_loop[of this t related ?w2] obtain es
    where es: "trace (snd (saveMany_loop this t related ?w2)) = trace ?w2 @ es"
      "prefix es (saveMany_steps t related)"
      "\<forall>x. fst (saveMany_loop this t related ?w2) = Inr x \<longrightarrow> es = saveMany_steps t related"
    by blast
  show ?thesis
  proof (cases "fst (row_save (this_parent this) (snd (set_trx (this_parent this) t w)))")
    case (Inl e)
    then show ?thesis
      by (simp add: saveMany_work_def snd_andThen fst_andThen)
  next
    case (Inr u)
    with es show ?thesis
      by (auto simp: saveMany_work_def snd_andThen fst_andThen split: sum.splits)
  qed
qed

lemma quiet_saveMany_steps: "list_all no_transaction_call (saveMany_steps t related)"
  by (induction related) (simp_all add: saveMany_steps_def)

lemma quiet_prefix:
  "prefix es fs \<Longrightarrow> list_all no_transaction_call fs \<Longrightarrow> list_all no_transaction_call es"
  by (auto simp: prefix_def)

lemma steps_saveMany:
  "prefix (steps_since w (snd (saveMany this related w)))
     (SetTrx (this_parent this) (resolved_trx this w) # RowSave (this_parent this) #
      saveMany_steps (resolved_trx this w) related) \<and>
   (\<forall>r. fst (saveMany this related w) = Inr r \<longrightarrow>
        steps_since w (snd (saveMany this related w)) =
          SetTrx (this_parent this) (resolved_trx this w) # RowSave (this_parent this) #
          saveMany_steps (resolved_trx this w) related)"
proof -
  have eq: "saveMany this related w =
      managedTransaction (trx_or_client this w) (saveMany_work this related) w"
    using invoke_eq[of this "OpSaveMany related" w] by simp
  show ?thesis
  proof (cases "trx_or_client this w")
    case (Trx t)
    from trace_saveMany_work[of this related t w] obtain es
      where es: "trace (snd (saveMany_work this related t w)) =
          trace w @ SetTrx (this_parent this) t # RowSave (this_parent this) # es"
        "prefix es (saveMany_steps t related)"
        "\<forall>x. fst (saveMany_work this related t w) = Inr x \<longrightarrow> es = saveMany_steps t related"
      by blast
    from es(2) have "list_all no_transaction_call es"
      by (rule quiet_prefix) (rule quiet_saveMany_steps)
    with es show ?thesis
      by (simp add: eq Trx steps_since_def events_since_def resolved_trx_def filter_quiet
          quiet_saveMany_steps)
  next
    case Client
    let ?t = "next_trx w"
    from trace_saveMany_work[of this related ?t "snd (begin_trx w)"] obtain es
      where es: "trace (snd (saveMany_work this related ?t (snd (begin_trx w)))) =
          trace (snd (begin_trx w)) @ SetTrx (this_parent this) ?t # RowSave (this_parent this) # es"
        "prefix es (saveMany_steps ?t related)"
        "\<forall>x. fst (saveMany_work this related ?t (snd (begin_trx w))) = Inr x \<longrightarrow>
             es = saveMany_steps ?t related"
      by blast
    from es(2) have "list_all no_transaction_call es"
      by (rule quiet_prefix) (rule quiet_saveMany_steps)
    with es show ?thesis
      by (auto simp: eq Client steps_since_def events_since_def resolved_trx_def filter_quiet
          quiet_saveMany_steps snd_managedTransaction_Client fst_managedTransaction_Client split: sum.splits)
  qed
qed

lemma save_work_split:
  "save_work this related t =
     andThen (save_until_child_persist this related t) (\<lambda>_.
     andThen (row_save related) (\<lambda>_. succeed RVoid))"
  by (rule ext)
    (simp add: save_work_def save_until_child_persist_def andThen_def
      split: prod.splits sum.splits)

lemma getValue_update:
  assumes "getValue r lk rel action = Inr v"
  shows "getValue (r\<lparr>attributes := AList.update fk v (attributes r)\<rparr>) lk rel action = Inr v"
  using assms by (auto simp: getValue_def update_conv' split: option.splits val.splits)

lemma hydrated_before_child_persist:
  assumes "save_until_child_persist this related t w = (Inr u, w1)"
  shows "\<exists>v. getValue (rows w1 (this_parent this)) (localKey (this_relation this))
              (keys_of (this_relation this)) PersistAction = Inr v \<and>
            map_of (attributes (rows w1 related)) (foreignKey (this_relation this)) = Some v"
proof -
  let ?p = "this_parent this"
  let ?rel = "keys_of (this_relation this)"
  let ?w2 = "snd (row_save ?p (snd (set_trx ?p t w)))"
  let ?w3 = "snd (hydrateForPersistance ?rel ?p (RowT related) ?w2)"
  from assms have saved: "fst (row_save ?p (snd (set_trx ?p t w))) = Inr ()"
    and hydrated: "fst (hydrateForPersistance ?rel ?p (RowT related) ?w2) = Inr ()"
    and w1: "w1 = snd (set_trx related t ?w3)"
    by (auto simp: save_until_child_persist_def andThen_def split: prod.splits sum.splits)
  from hydrated obtain v
    where v: "getValue (rows ?w2 ?p) (localKey ?rel) ?rel PersistAction = Inr v"
      and rows3: "rows ?w3 = (rows ?w2)
        (related := (rows ?w2 related)\<lparr>attributes :=
           AList.update (foreignKey ?rel) v (attributes (rows ?w2 related))\<rparr>)"
    by (auto simp: hydrateForPersistance_def Let_def emit_def split: sum.splits)
  have keys: "localKey ?rel = localKey (this_relation this)"
    "foreignKey ?rel = foreignKey (this_relation this)"
    by (simp_all add: keys_of_def)
  have "getValue (rows w1 ?p) (localKey ?rel) ?rel PersistAction = Inr v"
    using v getValue_update[OF v, of "foreignKey ?rel"]
    by (auto simp: w1 rows3 getValue_def)
  moreover have "map_of (attributes (rows w1 related)) (foreignKey ?rel) = Some v"
    by (simp add: w1 rows3 update_conv')
  ultimately show ?thesis
    unfolding keys by blast
qed

text \<open>
  C5: in every write operation the parent's \<^verbatim>\<open>save()\<close> is the first persistence step: apart
  from calls to the transaction layer, the operation begins by binding the parent to the
  resolved transaction and saving the parent, and every hydration, every child's save and
  every call to the related model comes after that. \<^verbatim>\<open>saveMany\<close> then takes its rows one at a
  time in the order of the input, hydrating, binding and saving each row before it turns
  to the next; a failure stops it at that point, and without a failure it goes through the
  whole input. In \<^verbatim>\<open>save\<close>, the work is everything up to the child's \<^verbatim>\<open>save()\<close> followed by that
  call, and whenever the call is reached the child's foreign-key field holds the value the
  parent's local key has at that moment, that is, after the parent's own save.
\<close>

theorem parent_saved_before_children:
  "(\<exists>es. steps_since w (snd (invoke this op w)) =
           SetTrx (this_parent this) (resolved_trx this w) # RowSave (this_parent this) # es) \<and>
   prefix (steps_since w (snd (saveMany this related w)))
     (SetTrx (this_parent this) (resolved_trx this w) # RowSave (this_parent this) #
      saveMany_steps (resolved_trx this w) related) \<and>
   (\<forall>r. fst (saveMany this related w) = Inr r \<longrightarrow>
        steps_since w (snd (saveMany this related w)) =
          SetTrx (this_parent this) (resolved_trx this w) # RowSave (this_parent this) #
          saveMany_steps (resolved_trx this w) related) \<and>
   save_work this child t =
     andThen (save_until_child_persist this child t) (\<lambda>_.
     andThen (row_save child) (\<lambda>_. succeed RVoid)) \<and>
   (\<forall>u w1. save_until_child_persist this child t w = (Inr u, w1) \<longrightarrow>
      (\<exists>v. getValue (rows w1 (this_parent this)) (localKey (this_relation this))
              (keys_of (this_relation this)) PersistAction = Inr v \<and>
           map_of (attributes (rows w1 child)) (foreignKey (this_relation this)) = Some v))"
  using steps_invoke[of w this op] steps_saveMany[of w this related]
    save_work_split[of this child t] hydrated_before_child_persist[of this child t w]
  by blast

text \<open>
  A new user without an id saves three posts. The user is saved first and gets the id 1;
  each post is then hydrated with it and saved, in the order given. Before the user's save
  the local key could not have been resolved.
\<close>

theorem parent_saved_before_children_witness:
  "getValue (rows blog 0) ''id'' posts_keys PersistAction = Inl (MissingKeyError PersistAction ''id'') \<and>
   steps_since blog (snd (saveMany ann_posts [1, 2, 3] blog)) =
     [SetTrx 0 0, RowSave 0, Hydrate (RowT 1), SetTrx 1 0, RowSave 1,
      Hydrate (RowT 2), SetTrx 2 0, RowSave 2, Hydrate (RowT 3), SetTrx 3 0, RowSave 3] \<and>
   fst (save_until_child_persist ann_posts 1 0 (snd (begin_trx blog))) = Inr () \<and>
   map_of (attributes (rows (snd (save_until_child_persist ann_posts 1 0 (snd (begin_trx blog)))) 0))
     ''id'' = Some (VNum 1) \<and>
   map_of (attributes (rows (snd (save_until_child_persist ann_posts 1 0 (snd (begin_trx blog)))) 1))
     ''userId'' = Some (VNum 1)"
proof -
  have run:
    "getValue (rows blog 0) ''id'' posts_keys PersistAction = Inl (MissingKeyError PersistAction ''id'')"
    "steps_since blog (snd (saveMany ann_posts [1, 2, 3] blog)) =
     [SetTrx 0 0, RowSave 0, Hydrate (RowT 1), SetTrx 1 0, RowSave 1,
      Hydrate (RowT 2), SetTrx 2 0, RowSave 2, Hydrate (RowT 3), SetTrx 3 0, RowSave 3]"
    "fst (save_until_child_persist ann_posts 1 0 (snd (begin_trx blog))) = Inr ()"
    "map_of (attributes (rows (snd (save_until_child_persist ann_posts 1 0 (snd (begin_trx blog)))) 0))
       ''id'' = Some (VNum 1)"
    "map_of (attributes (rows (snd (save_until_child_persist ann_posts 1 0 (snd (begin_trx blog)))) 1))
       ''userId'' = Some (VNum 1)"
    by (simp_all add: run_defs save_until_child_persist_def steps_since_def events_since_def
        no_transaction_call_def)
  from parent_saved_before_children
    [where this = ann_posts and w = "snd (begin_trx blog)" and child = 1 and t = 0
       and op = "OpSave 1" and related = "[1, 2, 3]"] run
  show ?thesis by blast
qed

section \<open>What save and saveMany return and store\<close>

lemma visible_writes: "visible t w = committed w @ writes t w"
  by (simp add: visible_def writes_def)

lemma writes_cong: "pending w' = pending w \<Longrightarrow> writes t w' = writes t w"
  by (simp add: writes_def)

lemma row_save_written:
  assumes "fst (row_save b w) = Inr u" and "row_trx (rows w b) = Some t"
  shows "writes t (snd (row_save b w)) = writes t w @ [attributes (rows (snd (row_save b w)) b)]"
  using assms
  by (auto simp: row_save_def Let_def emit_def write_row_def writes_def
      split: sum.splits option.splits if_splits prod.splits)

lemma hydrate_row_other:
  "a \<noteq> b \<Longrightarrow> rows (snd (hydrateForPersistance rel p (RowT b) w)) a = rows w a"
  by (simp add: hydrateForPersistance_def Let_def emit_def split: sum.splits)

lemma written_step:
  assumes written: "\<forall>a\<in>S. attributes (rows w a) \<in> set (writes t w)"
    and saved: "fst (row_save b (snd (set_trx b t (snd (hydrateForPersistance rel p (RowT b) w))))) = Inr u"
  shows "\<forall>a\<in>insert b S. attributes
           (rows (snd (row_save b (snd (set_trx b t (snd (hydrateForPersistance rel p (RowT b) w)))))) a)
         \<in> set (writes t (snd (row_save b (snd (set_trx b t (snd (hydrateForPersistance rel p (RowT b) w)))))))"
proof
  let ?w1 = "snd (hydrateForPersistance rel p (RowT b) w)"
  let ?w2 = "snd (set_trx b t ?w1)"
  let ?w3 = "snd (row_save b ?w2)"
  fix a assume a: "a \<in> insert b S"
  have bound: "row_trx (rows ?w2 b) = Some t" by simp
  have grows: "writes t ?w3 = writes t w @ [attributes (rows ?w3 b)]"
    using row_save_written[OF saved bound] writes_cong[of ?w2 ?w1 t] writes_cong[of ?w1 w t]
    by simp
  show "attributes (rows ?w3 a) \<in> set (writes t ?w3)"
  proof (cases "a = b")
    case True
    then show ?thesis by (simp add: grows)
  next
    case False
    with a written have "attributes (rows w a) \<in> set (writes t w)" by simp
    moreover from False have "rows ?w3 a = rows w a"
      by (simp add: row_save_other hydrate_row_other)
    ultimately show ?thesis by (simp add: grows)
  qed
qed

lemma written_saveMany_loop:
  assumes "\<forall>a\<in>S. attributes (rows w a) \<in> set (writes t w)"
    and "fst (saveMany_loop this t related w) = Inr u"
  shows "\<forall>a\<in>S \<union> set related.
           attributes (rows (snd (saveMany_loop this t related w)) a) \<in>
           set (writes t (snd (saveMany_loop this t related w)))"
  using assms
proof (induction related arbitrary: w S)
  case Nil
  then show ?case by simp
next
  case (Cons b related)
  let ?rel = "keys_of (this_relation this)"
  let ?p = "this_parent this"
  let ?w1 = "snd (hydrateForPersistance ?rel ?p (RowT b) w)"
  let ?w2 = "snd (set_trx b t ?w1)"
  let ?w3 = "snd (row_save b ?w2)"
  from Cons.prems(2) have saved: "fst (row_save b ?w2) = Inr ()"
    and rest: "fst (saveMany_loop this t related ?w3) = Inr u"
    and final: "snd (saveMany_loop this t (b # related) w) = snd (saveMany_loop this t related ?w3)"
    by (auto simp: fst_andThen snd_andThen split: sum.splits)
  from written_step[OF Cons.prems(1) saved]
  have "\<forall>a\<in>insert b S. attributes (rows ?w3 a) \<in> set (writes t ?w3)" .
  from Cons.IH[OF this rest] show ?case
    unfolding final by simp
qed

lemma written_saveMany_work:
  assumes "fst (saveMany_work this related t w) = Inr r"
  shows "\<forall>a\<in>set related.
           attributes (rows (snd (saveMany_work this related t w)) a) \<in>
           set (writes t (snd (saveMany_work this related t w)))"
proof -
  let ?p = "this_parent this"
  let ?w0 = "snd (row_save ?p (snd (set_trx ?p t w)))"
  from assms have loop: "fst (saveMany_loop this t related ?w0) = Inr ()"
    and final: "snd (saveMany_work this related t w) = snd (saveMany_loop this t related ?w0)"
    by (auto simp: saveMany_work_def fst_andThen snd_andThen split: sum.splits)
  from written_saveMany_loop[of "{}" ?w0 t this related, OF _ loop] show ?thesis
    unfolding final by simp
qed

text \<open>
  After a successful run under the coordinator the rows in memory are those the work left,
  and what the work wrote through its transaction is visible through it: committed when the
  coordinator owned the transaction, among the transaction's writes otherwise.
\<close>

lemma managedTransaction_stored:
  assumes "fst (managedTransaction h work w) = Inr r"
  shows "\<exists>w2. fst (work (case h of Trx t \<Rightarrow> t | Client \<Rightarrow> next_trx w)
                   (case h of Trx t \<Rightarrow> w | Client \<Rightarrow> snd (begin_trx w))) = Inr r \<and>
              w2 = snd (work (case h of Trx t \<Rightarrow> t | Client \<Rightarrow> next_trx w)
                   (case h of Trx t \<Rightarrow> w | Client \<Rightarrow> snd (begin_trx w))) \<and>
              rows (snd (managedTransaction h work w)) = rows w2 \<and>
              objects (snd (managedTransaction h work w)) = objects w2 \<and>
              set (writes (case h of Trx t \<Rightarrow> t | Client \<Rightarrow> next_trx w) w2) \<subseteq>
                set (visible (case h of Trx t \<Rightarrow> t | Client \<Rightarrow> next_trx w)
                       (snd (managedTransaction h work w))) \<and>
              (h = Client \<longrightarrow>
                 set (writes (next_trx w) w2) \<subseteq> set (committed (snd (managedTransaction h work w))))"
  using assms
  by (cases h)
    (auto simp: visible_writes fst_managedTransaction_Client snd_managedTransaction_Client)

section \<open>Which objects the operations change\<close>

lemma hydrate_obj_frame [simp]:
  "rows (snd (hydrateForPersistance rel p (ObjT c) w)) = rows w"
  by (simp add: hydrateForPersistance_def Let_def emit_def split: sum.splits)


lemma insert_new_frame [simp]:
  "objects (snd (insert_new attrs t w)) = objects w"
  "next_object (snd (insert_new attrs t w)) = next_object w"
  by (simp_all add: insert_new_def snd_andThen split: sum.splits)

lemma first_or_create_frame [simp]:
  "objects (snd (first_or_create search attrs t w)) = objects w"
  "next_object (snd (first_or_create search attrs t w)) = next_object w"
  using first_or_create_cases[of search attrs t w] by auto

lemma update_or_create_frame [simp]:
  "objects (snd (update_or_create search updates t w)) = objects w"
  "next_object (snd (update_or_create search updates t w)) = next_object w"
  using update_or_create_cases[of search updates t w] by auto










section \<open>Failure of an operation that owns its transaction\<close>





section \<open>The predicate fields handed to the related model\<close>

lemma quiet_model_hydrate_payload:
  "emits (\<lambda>ev. \<not> model_call_event ev) (each (hydrate_payload this) payload)"
  by (intro emits_each emits_hydrate_payload) simp

lemma quiet_model_first_or_create_each:
  "emits (\<lambda>ev. \<not> model_call_event ev)
     (andThen (each read_object payload) (\<lambda>attrs.
      andThen (each (\<lambda>obj. first_or_create (restrict_fields fs obj) obj bound) attrs) (\<lambda>as.
      succeed (RRows as))))"
  by (intro emits_steps; simp)

lemma quiet_model_update_or_create_each:
  "emits (\<lambda>ev. \<not> model_call_event ev)
     (andThen (each read_object payload) (\<lambda>attrs.
      andThen (each (\<lambda>obj. update_or_create (restrict_fields fs obj) obj bound) attrs) (\<lambda>as.
      succeed (RRows as))))"
  by (intro emits_steps; simp)

lemma filter_none: "list_all (\<lambda>ev. \<not> model_call_event ev) es \<Longrightarrow> filter model_call_event es = []"
  by (induction es) auto

text \<open>
  A work that saves the parent, runs steps that do not call the related model, calls it
  once and finishes with steps that do not call it: when the work returns, its trace holds
  that one call.
\<close>

lemma one_model_call:
  assumes before: "emits (\<lambda>ev. \<not> model_call_event ev) pre"
    and after: "emits (\<lambda>ev. \<not> model_call_event ev) post"
    and ok: "fst (andThen (set_trx p t) (\<lambda>_. andThen (row_save p) (\<lambda>_.
               andThen pre (\<lambda>_. andThen (called c given) (\<lambda>_. post)))) w) = Inr r"
  shows "filter model_call_event (events_since w
           (snd (andThen (set_trx p t) (\<lambda>_. andThen (row_save p) (\<lambda>_.
               andThen pre (\<lambda>_. andThen (called c given) (\<lambda>_. post)))) w))) =
         [RelatedModel c given]"
proof -
  let ?w2 = "snd (row_save p (snd (set_trx p t w)))"
  let ?w3 = "snd (pre ?w2)"
  let ?w4 = "snd (called c given ?w3)"
  from ok obtain u x where saved: "fst (row_save p (snd (set_trx p t w))) = Inr u"
    and ran: "fst (pre ?w2) = Inr x"
    by (auto simp: fst_andThen split: sum.splits)
  from emitsD[OF before, of ?w2] obtain es1
    where es1: "trace ?w3 = trace ?w2 @ es1" "list_all (\<lambda>ev. \<not> model_call_event ev) es1" by blast
  from emitsD[OF after, of ?w4] obtain es2
    where es2: "trace (snd (post ?w4)) = trace ?w4 @ es2" "list_all (\<lambda>ev. \<not> model_call_event ev) es2"
    by blast
  from saved ran es1 es2 show ?thesis
    by (simp add: snd_andThen events_since_def filter_none)
qed

lemma model_calls_managedTransaction:
  assumes "fst (managedTransaction h work w) = Inr r"
    and "\<And>t w1. fst (work t w1) = Inr r \<Longrightarrow>
            filter model_call_event (events_since w1 (snd (work t w1))) = [call t]"
    and "\<And>t w1. \<exists>es. trace (snd (work t w1)) = trace w1 @ es"
  shows "filter model_call_event (events_since w (snd (managedTransaction h work w))) =
         [call (case h of Trx t \<Rightarrow> t | Client \<Rightarrow> next_trx w)]"
proof (cases h)
  case (Trx t)
  with assms(1,2) show ?thesis by simp
next
  case Client
  let ?t = "next_trx w"
  let ?w1 = "snd (begin_trx w)"
  from assms(1) Client have ok: "fst (work ?t ?w1) = Inr r"
    by (simp add: fst_managedTransaction_Client)
  from assms(3)[of ?t ?w1] obtain es where es: "trace (snd (work ?t ?w1)) = trace ?w1 @ es" ..
  from assms(2)[OF ok] es have "filter model_call_event es = [call ?t]"
    by (simp add: events_since_def)
  with ok es Client show ?thesis
    by (simp add: snd_managedTransaction_Client events_since_def)
qed

lemma extends_work: "\<exists>es. trace (snd (work_of this op t w)) = trace w @ es"
  using trace_work[of this op t w] by auto

lemma only_call_fetchOrCreateMany:
  "emits (only_call (FetchOrCreateMany (predicate_fields this predicate) payload))
     (fetchOrCreateMany_work this payload predicate options t)"
  unfolding fetchOrCreateMany_work_def relatedModel_fetchOrCreateMany_def
  by (intro emits_steps emits_hydrate_payload; simp)

lemma only_call_updateOrCreateMany:
  "emits (only_call (UpdateOrCreateMany (predicate_fields this predicate) payload))
     (updateOrCreateMany_work this payload predicate options t)"
  unfolding updateOrCreateMany_work_def relatedModel_updateOrCreateMany_def
  by (intro emits_steps emits_hydrate_payload; simp)

lemma fetchOrCreateMany_calls_once:
  assumes "fst (fetchOrCreateMany this payload predicate options w) = Inr r"
  shows "filter model_call_event
           (events_since w (snd (fetchOrCreateMany this payload predicate options w))) =
         [RelatedModel (FetchOrCreateMany (predicate_fields this predicate) payload)
            (spread (resolved_trx this w) options)]"
  unfolding fetchOrCreateMany_def resolved_trx_def
proof (rule model_calls_managedTransaction
    [where call = "\<lambda>t. RelatedModel (FetchOrCreateMany (predicate_fields this predicate) payload)
                         (spread t options)"])
  from assms show "fst (managedTransaction (trx_or_client this w)
      (fetchOrCreateMany_work this payload predicate options) w) = Inr r"
    by (simp add: fetchOrCreateMany_def)
next
  fix t w1
  assume "fst (fetchOrCreateMany_work this payload predicate options t w1) = Inr r"
  then show "filter model_call_event
      (events_since w1 (snd (fetchOrCreateMany_work this payload predicate options t w1))) =
      [RelatedModel (FetchOrCreateMany (predicate_fields this predicate) payload) (spread t options)]"
    unfolding fetchOrCreateMany_work_def relatedModel_fetchOrCreateMany_def
    by (rule one_model_call[OF quiet_model_hydrate_payload quiet_model_first_or_create_each])
next
  fix t w1
  show "\<exists>es. trace (snd (fetchOrCreateMany_work this payload predicate options t w1)) = trace w1 @ es"
    using extends_work[of this "OpFetchOrCreateMany payload predicate options" t w1] by simp
qed

lemma updateOrCreateMany_calls_once:
  assumes "fst (updateOrCreateMany this payload predicate options w) = Inr r"
  shows "filter model_call_event
           (events_since w (snd (updateOrCreateMany this payload predicate options w))) =
         [RelatedModel (UpdateOrCreateMany (predicate_fields this predicate) payload)
            (spread (resolved_trx this w) options)]"
  unfolding updateOrCreateMany_def resolved_trx_def
proof (rule model_calls_managedTransaction
    [where call = "\<lambda>t. RelatedModel (UpdateOrCreateMany (predicate_fields this predicate) payload)
                         (spread t options)"])
  from assms show "fst (managedTransaction (trx_or_client this w)
      (updateOrCreateMany_work this payload predicate options) w) = Inr r"
    by (simp add: updateOrCreateMany_def)
next
  fix t w1
  assume "fst (updateOrCreateMany_work this payload predicate options t w1) = Inr r"
  then show "filter model_call_event
      (events_since w1 (snd (updateOrCreateMany_work this payload predicate options t w1))) =
      [RelatedModel (UpdateOrCreateMany (predicate_fields this predicate) payload) (spread t options)]"
    unfolding updateOrCreateMany_work_def relatedModel_updateOrCreateMany_def
    by (rule one_model_call[OF quiet_model_hydrate_payload quiet_model_update_or_create_each])
next
  fix t w1
  show "\<exists>es. trace (snd (updateOrCreateMany_work this payload predicate options t w1)) = trace w1 @ es"
    using extends_work[of this "OpUpdateOrCreateMany payload predicate options" t w1] by simp
qed

text \<open>
  C6: the optional predicate is normalised to an array and the relation's foreign key is
  appended to it. Left out it gives \<open>[foreignKey]\<close>; any field name \<open>f\<close> (a non-empty
  string) and the array \<open>[f]\<close> both give \<open>[f, foreignKey]\<close>, in particular for \<open>email\<close>; the
  empty string is falsy and gives \<open>[foreignKey]\<close>; and an array always gives the array
  followed by the foreign key, so an array that already holds the foreign key ends with it
  twice. \<^verbatim>\<open>fetchOrCreateMany\<close> makes no call to the related model other than the related model's
  \<^verbatim>\<open>fetchOrCreateMany\<close> with exactly this list and the caller's payload, and whenever it
  returns it has made exactly that one call, with \<^verbatim>\<open>{ client: trx, ...options }\<close> as the
  options; and likewise \<^verbatim>\<open>updateOrCreateMany\<close>.
\<close>

theorem predicate_normalized_then_foreign_key_appended:
  "predicate_fields this PUndefined = [foreignKey (this_relation this)] \<and>
   predicate_fields this (PField ''email'') = [''email'', foreignKey (this_relation this)] \<and>
   predicate_fields this (PFields [''email'']) = [''email'', foreignKey (this_relation this)] \<and>
   (f \<noteq> [] \<longrightarrow> predicate_fields this (PField f) = [f, foreignKey (this_relation this)]) \<and>
   predicate_fields this (PField []) = [foreignKey (this_relation this)] \<and>
   predicate_fields this (PFields fs) = fs @ [foreignKey (this_relation this)] \<and>
   predicate_fields this (PFields [foreignKey (this_relation this)]) =
     [foreignKey (this_relation this), foreignKey (this_relation this)] \<and>
   list_all (only_call (FetchOrCreateMany (predicate_fields this predicate) payload))
     (events_since w (snd (fetchOrCreateMany this payload predicate options w))) \<and>
   list_all (only_call (UpdateOrCreateMany (predicate_fields this predicate) payload))
     (events_since w (snd (updateOrCreateMany this payload predicate options w))) \<and>
   (\<forall>r. fst (fetchOrCreateMany this payload predicate options w) = Inr r \<longrightarrow>
      filter model_call_event
        (events_since w (snd (fetchOrCreateMany this payload predicate options w))) =
      [RelatedModel (FetchOrCreateMany (predicate_fields this predicate) payload)
         (spread (resolved_trx this w) options)]) \<and>
   (\<forall>r. fst (updateOrCreateMany this payload predicate options w) = Inr r \<longrightarrow>
      filter model_call_event
        (events_since w (snd (updateOrCreateMany this payload predicate options w))) =
      [RelatedModel (UpdateOrCreateMany (predicate_fields this predicate) payload)
         (spread (resolved_trx this w) options)])"
proof -
  have "list_all (only_call (FetchOrCreateMany (predicate_fields this predicate) payload))
     (events_since w (snd (managedTransaction (trx_or_client this w)
        (fetchOrCreateMany_work this payload predicate options) w)))"
    by (rule events_since_emits, rule emits_managedTransaction, rule only_call_fetchOrCreateMany)
      simp_all
  moreover
  have "list_all (only_call (UpdateOrCreateMany (predicate_fields this predicate) payload))
     (events_since w (snd (managedTransaction (trx_or_client this w)
        (updateOrCreateMany_work this payload predicate options) w)))"
    by (rule events_since_emits, rule emits_managedTransaction, rule only_call_updateOrCreateMany)
      simp_all
  moreover
  have "\<forall>r. fst (fetchOrCreateMany this payload predicate options w) = Inr r \<longrightarrow>
      filter model_call_event
        (events_since w (snd (fetchOrCreateMany this payload predicate options w))) =
      [RelatedModel (FetchOrCreateMany (predicate_fields this predicate) payload)
         (spread (resolved_trx this w) options)]"
    using fetchOrCreateMany_calls_once[of this payload predicate options w] by blast
  moreover
  have "\<forall>r. fst (updateOrCreateMany this payload predicate options w) = Inr r \<longrightarrow>
      filter model_call_event
        (events_since w (snd (updateOrCreateMany this payload predicate options w))) =
      [RelatedModel (UpdateOrCreateMany (predicate_fields this predicate) payload)
         (spread (resolved_trx this w) options)]"
    using updateOrCreateMany_calls_once[of this payload predicate options w] by blast
  moreover
  have "predicate_fields this PUndefined = [foreignKey (this_relation this)]"
    "predicate_fields this (PField ''email'') = [''email'', foreignKey (this_relation this)]"
    "predicate_fields this (PFields [''email'']) = [''email'', foreignKey (this_relation this)]"
    "f \<noteq> [] \<longrightarrow> predicate_fields this (PField f) = [f, foreignKey (this_relation this)]"
    "predicate_fields this (PField []) = [foreignKey (this_relation this)]"
    "predicate_fields this (PFields fs) = fs @ [foreignKey (this_relation this)]"
    "predicate_fields this (PFields [foreignKey (this_relation this)]) =
     [foreignKey (this_relation this), foreignKey (this_relation this)]"
    by (simp_all add: predicate_fields_def normalize_predicate_def)
  ultimately show ?thesis
    by (simp add: fetchOrCreateMany_def updateOrCreateMany_def)
qed

text \<open>
  For the user's posts the shapes of the predicate give \<open>[userId]\<close>, \<open>[email, userId]\<close>,
  \<open>[email, userId]\<close> and \<open>[title, userId]\<close>, and both batch upserts hand the list to the related
  model, in their one call to it.
\<close>

theorem predicate_normalized_then_foreign_key_appended_witness:
  "predicate_fields ann_posts PUndefined = [''userId''] \<and>
   predicate_fields ann_posts (PField ''email'') = [''email'', ''userId''] \<and>
   predicate_fields ann_posts (PFields [''email'']) = [''email'', ''userId''] \<and>
   predicate_fields ann_posts (PField ''title'') = [''title'', ''userId''] \<and>
   predicate_fields ann_posts (PFields [''userId'']) = [''userId'', ''userId''] \<and>
   fst (fetchOrCreateMany ann_posts [0, 1] (PField ''title'') None blog) = Inr (RRows [4, 5]) \<and>
   trace (snd (fetchOrCreateMany ann_posts [0, 1] (PField ''title'') None blog)) =
     [Begin 0, SetTrx 0 0, RowSave 0, Hydrate (ObjT 0), Hydrate (ObjT 1),
      RelatedModel (FetchOrCreateMany [''title'', ''userId''] [0, 1])
        \<lparr>client_entry = Some (Trx 0), other_entries = []\<rparr>,
      RowSave 4, RowSave 5, Commit 0] \<and>
   fst (updateOrCreateMany ann_posts [0, 1] (PField ''title'') None blog) = Inr (RRows [4, 5]) \<and>
   trace (snd (updateOrCreateMany ann_posts [0, 1] (PField ''title'') None blog)) =
     [Begin 0, SetTrx 0 0, RowSave 0, Hydrate (ObjT 0), Hydrate (ObjT 1),
      RelatedModel (UpdateOrCreateMany [''title'', ''userId''] [0, 1])
        \<lparr>client_entry = Some (Trx 0), other_entries = []\<rparr>,
      RowSave 4, RowSave 5, Commit 0]"
proof -
  have run:
    "predicate_fields ann_posts PUndefined = [''userId'']"
    "predicate_fields ann_posts (PField ''email'') = [''email'', ''userId'']"
    "predicate_fields ann_posts (PFields [''email'']) = [''email'', ''userId'']"
    "predicate_fields ann_posts (PField ''title'') = [''title'', ''userId'']"
    "predicate_fields ann_posts (PFields [''userId'']) = [''userId'', ''userId'']"
    "fst (fetchOrCreateMany ann_posts [0, 1] (PField ''title'') None blog) = Inr (RRows [4, 5])"
    "trace (snd (fetchOrCreateMany ann_posts [0, 1] (PField ''title'') None blog)) =
     [Begin 0, SetTrx 0 0, RowSave 0, Hydrate (ObjT 0), Hydrate (ObjT 1),
      RelatedModel (FetchOrCreateMany [''title'', ''userId''] [0, 1])
        \<lparr>client_entry = Some (Trx 0), other_entries = []\<rparr>,
      RowSave 4, RowSave 5, Commit 0]"
    "fst (updateOrCreateMany ann_posts [0, 1] (PField ''title'') None blog) = Inr (RRows [4, 5])"
    "trace (snd (updateOrCreateMany ann_posts [0, 1] (PField ''title'') None blog)) =
     [Begin 0, SetTrx 0 0, RowSave 0, Hydrate (ObjT 0), Hydrate (ObjT 1),
      RelatedModel (UpdateOrCreateMany [''title'', ''userId''] [0, 1])
        \<lparr>client_entry = Some (Trx 0), other_entries = []\<rparr>,
      RowSave 4, RowSave 5, Commit 0]"
    by (simp_all add: run_defs)
  from predicate_normalized_then_foreign_key_appended
    [where this = ann_posts and f = "''title''" and fs = "[''userId'']"
       and predicate = "PField ''title''" and payload = "[0, 1]" and w = blog and options = None]
    run
  show ?thesis by blast
qed

section \<open>What save and saveMany return and leave behind\<close>

lemma save_work_is_saveMany_work: "save_work this child = saveMany_work this [child]"
  by (intro ext)
    (simp add: save_work_def saveMany_work_def andThen_def succeed_def
      split: prod.splits sum.splits)

lemma save_is_saveMany: "save this child = saveMany this [child]"
  by (rule ext) (simp add: save_def saveMany_def save_work_is_saveMany_work)

lemma row_save_keeps_field:
  assumes "map_of (attributes (rows w a)) k = Some x"
  shows "map_of (attributes (rows (snd (row_save b w)) a)) k = Some x"
  using assms
  by (auto simp: row_save_def Let_def emit_def split_beta write_row_def
      split: sum.splits option.splits if_splits)

lemma getValue_field:
  "getValue r k rel action = Inr v \<longleftrightarrow> map_of (attributes r) k = Some v \<and> v \<noteq> VNull"
  by (auto simp: getValue_def split: option.splits val.splits)

lemma row_save_keeps_key:
  assumes "getValue (rows w a) k rel action = Inr v"
  shows "getValue (rows (snd (row_save b w)) a) k rel action = Inr v"
  using assms row_save_keeps_field[of w a k v b] by (simp add: getValue_field)

lemma hydrate_row_keeps_key:
  assumes "getValue (rows w p) (localKey rel) rel PersistAction = Inr v"
  shows "getValue (rows (snd (hydrateForPersistance rel p (RowT b) w)) p) (localKey rel) rel
           PersistAction = Inr v"
  using assms getValue_update[OF assms, of "foreignKey rel"]
  by (auto simp: hydrateForPersistance_def Let_def emit_def)

lemma hydrate_row_sets_key:
  assumes "fst (hydrateForPersistance rel p (RowT b) w) = Inr u"
  shows "\<exists>v. getValue (rows w p) (localKey rel) rel PersistAction = Inr v \<and>
             map_of (attributes (rows (snd (hydrateForPersistance rel p (RowT b) w)) b))
               (foreignKey rel) = Some v"
  using assms
  by (auto simp: hydrateForPersistance_def Let_def emit_def update_conv' split: sum.splits)

text \<open>
  One round of the loop of \<^verbatim>\<open>saveMany\<close>: the rows hydrated so far keep the parent's key in
  their foreign-key field, and the row of this round gets it.
\<close>

lemma hydrated_step:
  assumes hydrated: "\<forall>a\<in>S. \<exists>v. getValue (rows w p) (localKey rel) rel PersistAction = Inr v \<and>
                            map_of (attributes (rows w a)) (foreignKey rel) = Some v"
    and ok: "fst (hydrateForPersistance rel p (RowT b) w) = Inr u"
  shows "\<forall>a\<in>insert b S. \<exists>v.
           getValue (rows (snd (row_save b (snd (set_trx b t
               (snd (hydrateForPersistance rel p (RowT b) w)))))) p)
             (localKey rel) rel PersistAction = Inr v \<and>
           map_of (attributes (rows (snd (row_save b (snd (set_trx b t
               (snd (hydrateForPersistance rel p (RowT b) w)))))) a)) (foreignKey rel) = Some v"
proof
  let ?w1 = "snd (hydrateForPersistance rel p (RowT b) w)"
  let ?w2 = "snd (set_trx b t ?w1)"
  let ?w3 = "snd (row_save b ?w2)"
  fix a assume a: "a \<in> insert b S"
  from hydrate_row_sets_key[OF ok] obtain v
    where v: "getValue (rows w p) (localKey rel) rel PersistAction = Inr v"
      and set: "map_of (attributes (rows ?w1 b)) (foreignKey rel) = Some v"
    by blast
  from hydrate_row_keeps_key[OF v] have "getValue (rows ?w1 p) (localKey rel) rel PersistAction = Inr v" .
  then have "getValue (rows ?w2 p) (localKey rel) rel PersistAction = Inr v"
    by (auto simp: getValue_field)
  then have key: "getValue (rows ?w3 p) (localKey rel) rel PersistAction = Inr v"
    by (rule row_save_keeps_key)
  have "map_of (attributes (rows ?w2 a)) (foreignKey rel) = Some v"
  proof (cases "a = b")
    case True
    with set show ?thesis by simp
  next
    case False
    with a hydrated v have "map_of (attributes (rows w a)) (foreignKey rel) = Some v"
      by auto
    with False show ?thesis
      by (simp add: hydrate_row_other)
  qed
  then have "map_of (attributes (rows ?w3 a)) (foreignKey rel) = Some v"
    by (rule row_save_keeps_field)
  with key show "\<exists>v. getValue (rows ?w3 p) (localKey rel) rel PersistAction = Inr v \<and>
      map_of (attributes (rows ?w3 a)) (foreignKey rel) = Some v"
    by blast
qed

lemma hydrated_saveMany_loop:
  assumes "\<forall>a\<in>S. \<exists>v. getValue (rows w (this_parent this)) (localKey (keys_of (this_relation this)))
                       (keys_of (this_relation this)) PersistAction = Inr v \<and>
                     map_of (attributes (rows w a)) (foreignKey (keys_of (this_relation this))) = Some v"
    and "fst (saveMany_loop this t related w) = Inr u"
  shows "\<forall>a\<in>S \<union> set related. \<exists>v.
           getValue (rows (snd (saveMany_loop this t related w)) (this_parent this))
             (localKey (keys_of (this_relation this))) (keys_of (this_relation this))
             PersistAction = Inr v \<and>
           map_of (attributes (rows (snd (saveMany_loop this t related w)) a))
             (foreignKey (keys_of (this_relation this))) = Some v"
  using assms
proof (induction related arbitrary: w S)
  case Nil
  then show ?case by simp
next
  case (Cons b related)
  let ?rel = "keys_of (this_relation this)"
  let ?p = "this_parent this"
  let ?w1 = "snd (hydrateForPersistance ?rel ?p (RowT b) w)"
  let ?w2 = "snd (set_trx b t ?w1)"
  let ?w3 = "snd (row_save b ?w2)"
  from Cons.prems(2) have ok: "fst (hydrateForPersistance ?rel ?p (RowT b) w) = Inr ()"
    and rest: "fst (saveMany_loop this t related ?w3) = Inr u"
    and final: "snd (saveMany_loop this t (b # related) w) = snd (saveMany_loop this t related ?w3)"
    by (auto simp: fst_andThen snd_andThen split: sum.splits)
  from hydrated_step[OF Cons.prems(1) ok, of t]
  have "\<forall>a\<in>insert b S. \<exists>v. getValue (rows ?w3 ?p) (localKey ?rel) ?rel PersistAction = Inr v \<and>
          map_of (attributes (rows ?w3 a)) (foreignKey ?rel) = Some v" .
  from Cons.IH[OF this rest] show ?case
    unfolding final by simp
qed

lemma hydrated_saveMany_work:
  assumes "fst (saveMany_work this related t w) = Inr r"
  shows "\<forall>a\<in>set related. \<exists>v.
           getValue (rows (snd (saveMany_work this related t w)) (this_parent this))
             (localKey (this_relation this)) (keys_of (this_relation this)) PersistAction = Inr v \<and>
           map_of (attributes (rows (snd (saveMany_work this related t w)) a))
             (foreignKey (this_relation this)) = Some v"
proof -
  let ?p = "this_parent this"
  let ?w0 = "snd (row_save ?p (snd (set_trx ?p t w)))"
  from assms have loop: "fst (saveMany_loop this t related ?w0) = Inr ()"
    and final: "snd (saveMany_work this related t w) = snd (saveMany_loop this t related ?w0)"
    by (auto simp: saveMany_work_def fst_andThen snd_andThen split: sum.splits)
  have keys: "localKey (keys_of (this_relation this)) = localKey (this_relation this)"
    "foreignKey (keys_of (this_relation this)) = foreignKey (this_relation this)"
    by (simp_all add: keys_of_def)
  from hydrated_saveMany_loop[of "{}" ?w0 this t related, OF _ loop] show ?thesis
    unfolding final keys by simp
qed

text \<open>
  C7, as stated, fails: \<^verbatim>\<open>save\<close> and \<^verbatim>\<open>saveMany\<close> await the coordinator and return nothing. A
  new user saving the post at address 1, or the posts at addresses 1 to 3, gets no value
  back, and so neither the row nor the sequence of rows.
\<close>

theorem save_returns_row_counterexample:
  "fst (save ann_posts 1 blog) = Inr RVoid \<and>
   fst (save ann_posts 1 blog) \<noteq> Inr (RRow 1) \<and>
   fst (saveMany ann_posts [1, 2, 3] blog) = Inr RVoid \<and>
   fst (saveMany ann_posts [1, 2, 3] blog) \<noteq> Inr (RRows [1, 2, 3])"
  by (simp add: run_defs)

text \<open>
  C7, amended: \<^verbatim>\<open>save(child)\<close> and \<^verbatim>\<open>saveMany(children)\<close> return no value. When
  \<^verbatim>\<open>saveMany(children)\<close> completes without error, it has bound and saved the parent and then
  hydrated, bound and saved every row of the sequence, in order and in place; every row of
  the sequence, as it then is in memory, holds in its foreign-key field the value the
  parent's local key resolves to, and is stored through the operation's transaction: it is
  among the committed rows when the operation owned the transaction, and among the rows
  visible through the inherited transaction otherwise. \<^verbatim>\<open>save(child)\<close> does exactly what
  \<^verbatim>\<open>saveMany([child])\<close> does, so all of this holds for the child row it is given.
\<close>

theorem save_stores_child_and_returns_nothing:
  "save this child = saveMany this [child] \<and>
   (\<forall>r w'. saveMany this related w = (Inr r, w') \<longrightarrow>
      r = RVoid \<and>
      steps_since w w' =
        SetTrx (this_parent this) (resolved_trx this w) # RowSave (this_parent this) #
        saveMany_steps (resolved_trx this w) related \<and>
      (\<forall>a\<in>set related.
         (\<exists>v. getValue (rows w' (this_parent this)) (localKey (this_relation this))
                 (keys_of (this_relation this)) PersistAction = Inr v \<and>
               map_of (attributes (rows w' a)) (foreignKey (this_relation this)) = Some v) \<and>
         attributes (rows w' a) \<in> set (visible (resolved_trx this w) w') \<and>
         (trx_or_client this w = Client \<longrightarrow> attributes (rows w' a) \<in> set (committed w')))) \<and>
   (\<forall>r w'. save this child w = (Inr r, w') \<longrightarrow>
      r = RVoid \<and>
      steps_since w w' =
        [SetTrx (this_parent this) (resolved_trx this w), RowSave (this_parent this),
         Hydrate (RowT child), SetTrx child (resolved_trx this w), RowSave child] \<and>
      (\<exists>v. getValue (rows w' (this_parent this)) (localKey (this_relation this))
              (keys_of (this_relation this)) PersistAction = Inr v \<and>
            map_of (attributes (rows w' child)) (foreignKey (this_relation this)) = Some v) \<and>
      attributes (rows w' child) \<in> set (visible (resolved_trx this w) w') \<and>
      (trx_or_client this w = Client \<longrightarrow> attributes (rows w' child) \<in> set (committed w')))"
proof -
  have many: "r = RVoid \<and>
      steps_since w w' =
        SetTrx (this_parent this) (resolved_trx this w) # RowSave (this_parent this) #
        saveMany_steps (resolved_trx this w) rs \<and>
      (\<forall>a\<in>set rs.
         (\<exists>v. getValue (rows w' (this_parent this)) (localKey (this_relation this))
                 (keys_of (this_relation this)) PersistAction = Inr v \<and>
               map_of (attributes (rows w' a)) (foreignKey (this_relation this)) = Some v) \<and>
         attributes (rows w' a) \<in> set (visible (resolved_trx this w) w') \<and>
         (trx_or_client this w = Client \<longrightarrow> attributes (rows w' a) \<in> set (committed w')))"
    if run: "saveMany this rs w = (Inr r, w')" for r w' rs
  proof -
    have eq: "saveMany this rs w =
        managedTransaction (trx_or_client this w) (saveMany_work this rs) w"
      using invoke_eq[of this "OpSaveMany rs" w] by simp
    from run have ok: "fst (managedTransaction (trx_or_client this w) (saveMany_work this rs) w) = Inr r"
      and w': "w' = snd (managedTransaction (trx_or_client this w) (saveMany_work this rs) w)"
      by (simp_all add: eq)
    from managedTransaction_stored[OF ok] saveMany_work_returns[of this rs]
    have "r = RVoid" by auto
    moreover from steps_saveMany[of w this rs] run
    have "steps_since w w' =
        SetTrx (this_parent this) (resolved_trx this w) # RowSave (this_parent this) #
        saveMany_steps (resolved_trx this w) rs"
      by simp
    moreover from managedTransaction_stored[OF ok] hydrated_saveMany_work[of this rs]
    have "\<forall>a\<in>set rs. \<exists>v. getValue (rows w' (this_parent this)) (localKey (this_relation this))
                 (keys_of (this_relation this)) PersistAction = Inr v \<and>
               map_of (attributes (rows w' a)) (foreignKey (this_relation this)) = Some v"
      by (auto simp: w')
    moreover from managedTransaction_stored[OF ok] written_saveMany_work[of this rs]
    have "\<forall>a\<in>set rs. attributes (rows w' a) \<in> set (visible (resolved_trx this w) w')"
      by (auto simp: w' resolved_trx_def)
    moreover from managedTransaction_stored[OF ok] written_saveMany_work[of this rs]
    have "trx_or_client this w = Client \<longrightarrow>
        (\<forall>a\<in>set rs. attributes (rows w' a) \<in> set (committed w'))"
      by (auto simp: w')
    ultimately show ?thesis by blast
  qed
  have one: "r = RVoid \<and>
      steps_since w w' =
        [SetTrx (this_parent this) (resolved_trx this w), RowSave (this_parent this),
         Hydrate (RowT child), SetTrx child (resolved_trx this w), RowSave child] \<and>
      (\<exists>v. getValue (rows w' (this_parent this)) (localKey (this_relation this))
              (keys_of (this_relation this)) PersistAction = Inr v \<and>
            map_of (attributes (rows w' child)) (foreignKey (this_relation this)) = Some v) \<and>
      attributes (rows w' child) \<in> set (visible (resolved_trx this w) w') \<and>
      (trx_or_client this w = Client \<longrightarrow> attributes (rows w' child) \<in> set (committed w'))"
    if run: "save this child w = (Inr r, w')" for r w'
    using many[of "[child]" r w'] run
    by (simp add: save_is_saveMany saveMany_steps_def)
  from many one show ?thesis
    by (simp add: save_is_saveMany)
qed

text \<open>
  The new user's three posts: \<^verbatim>\<open>saveMany\<close> returns nothing, and the user and the posts, each
  with the user's new id as its foreign key, are committed in the order given.
\<close>

theorem save_stores_child_and_returns_nothing_witness:
  "fst (saveMany ann_posts [1, 2, 3] blog) = Inr RVoid \<and>
   committed (snd (saveMany ann_posts [1, 2, 3] blog)) =
     [[(''name'', VStr ''ann''), (''id'', VNum 1)],
      [(''title'', VStr ''a''), (''userId'', VNum 1), (''id'', VNum 2)],
      [(''title'', VStr ''b''), (''userId'', VNum 1), (''id'', VNum 3)],
      [(''title'', VStr ''c''), (''userId'', VNum 1), (''id'', VNum 4)]] \<and>
   attributes (rows (snd (saveMany ann_posts [1, 2, 3] blog)) 2) =
     [(''title'', VStr ''b''), (''userId'', VNum 1), (''id'', VNum 3)] \<and>
   fst (save ann_posts 1 blog) = Inr RVoid \<and>
   attributes (rows (snd (save ann_posts 1 blog)) 1) =
     [(''title'', VStr ''a''), (''userId'', VNum 1), (''id'', VNum 2)] \<and>
   steps_since blog (snd (save ann_posts 1 blog)) =
     [SetTrx 0 0, RowSave 0, Hydrate (RowT 1), SetTrx 1 0, RowSave 1]"
proof -
  have run:
    "fst (saveMany ann_posts [1, 2, 3] blog) = Inr RVoid"
    "committed (snd (saveMany ann_posts [1, 2, 3] blog)) =
     [[(''name'', VStr ''ann''), (''id'', VNum 1)],
      [(''title'', VStr ''a''), (''userId'', VNum 1), (''id'', VNum 2)],
      [(''title'', VStr ''b''), (''userId'', VNum 1), (''id'', VNum 3)],
      [(''title'', VStr ''c''), (''userId'', VNum 1), (''id'', VNum 4)]]"
    "attributes (rows (snd (saveMany ann_posts [1, 2, 3] blog)) 2) =
     [(''title'', VStr ''b''), (''userId'', VNum 1), (''id'', VNum 3)]"
    "fst (save ann_posts 1 blog) = Inr RVoid"
    "attributes (rows (snd (save ann_posts 1 blog)) 1) =
     [(''title'', VStr ''a''), (''userId'', VNum 1), (''id'', VNum 2)]"
    "steps_since blog (snd (save ann_posts 1 blog)) =
     [SetTrx 0 0, RowSave 0, Hydrate (RowT 1), SetTrx 1 0, RowSave 1]"
    by (simp_all add: run_defs steps_since_def events_since_def no_transaction_call_def)
  from save_stores_child_and_returns_nothing [of ann_posts 1 "[1, 2, 3]" blog] run
  show ?thesis by blast
qed

section \<open>Payload objects and the parent's save\<close>

lemma same_objects_frame:
  assumes "\<And>w. objects (snd (m w)) = objects w"
  shows "stable (\<lambda>w. objects w = obs) m"
  by (rule stableI) (simp add: assms)

lemmas same_objects_steps =
  stable_andThen stable_each stable_succeed
  same_objects_frame[of "called k given" for k given] same_objects_frame[of "read_object b" for b]
  same_objects_frame[of "insert_new attrs bound" for attrs bound]
  same_objects_frame[of "first_or_create search attrs bound" for search attrs bound]
  same_objects_frame[of "update_or_create search updates bound" for search updates bound]

lemma objects_relatedModel_fetchOrCreateMany [simp]:
  "objects (snd (relatedModel_fetchOrCreateMany fs payload given w)) = objects w"
proof -
  have "stable (\<lambda>w'. objects w' = objects w) (relatedModel_fetchOrCreateMany fs payload given)"
    unfolding relatedModel_fetchOrCreateMany_def by (intro same_objects_steps; simp)
  from stableD[OF this, of w] show ?thesis by simp
qed

lemma objects_relatedModel_updateOrCreateMany [simp]:
  "objects (snd (relatedModel_updateOrCreateMany fs payload given w)) = objects w"
proof -
  have "stable (\<lambda>w'. objects w' = objects w) (relatedModel_updateOrCreateMany fs payload given)"
    unfolding relatedModel_updateOrCreateMany_def by (intro same_objects_steps; simp)
  from stableD[OF this, of w] show ?thesis by simp
qed

lemma hydrate_payload_frame [simp]:
  "rows (snd (hydrate_payload this a w)) = rows w"
  by (simp add: hydrate_payload_def)












end
